(* ===== verification/Prelude.thy ===== *)
theory Prelude
  imports Main "HOL-Library.Sublist"
begin

text \<open>
  Shared vocabulary of the development: the model's string type (JavaScript strings as
  lists of code units), the collections of rewrite rules the component theories extend,
  and generic facts about lists and substrings that the regular-expression engine, the
  device classifier and the router all use.
\<close>

section \<open>Types of the model\<close>

text \<open>
  A JavaScript string is a sequence of UTF-16 code units. The model keeps the code units
  U+0000 to U+00FF (Latin-1), which is what \<open>char\<close> holds; user-agent strings and URL
  paths are ASCII in practice. Every definition that inspects a code unit (case
  folding in particular) is written for the full Latin-1 range.
\<close>

type_synonym js_string = "char list"

text \<open>
  The \<open>.vue\<close> modules the sources import are opaque view references: the page
  components of the routing table (\<open>src/desktop/router/index.js\<close>, lines 5 to 7) and
  the two root views of the dynamic import (\<open>src/main.js\<close>, lines 11 and 12).
\<close>

datatype view_module = HomePage | About | Books | DesktopApp | MobileApp

named_theorems regex_simps \<open>evaluation rules of the regular-expression engine\<close>
named_theorems boot_simps \<open>rewrite rules for the bootstrap state machine\<close>

section \<open>Substrings\<close>

text \<open>
  \<open>occurs_at w s i\<close>: the string \<open>w\<close> is found in \<open>s\<close> starting at index \<open>i\<close>.
  It is the executable, index-based view of \<open>sublist\<close> from HOL-Library.Sublist.
\<close>

definition occurs_at :: "'a list \<Rightarrow> 'a list \<Rightarrow> nat \<Rightarrow> bool" where
  "occurs_at w s i \<longleftrightarrow> i + length w \<le> length s \<and> take (length w) (drop i s) = w"

lemma occurs_at_append: "occurs_at w (p @ w @ q) (length p)"
  by (simp add: occurs_at_def)

lemma occurs_at_split:
  assumes "occurs_at w s i"
  shows "s = take i s @ w @ drop (i + length w) s"
proof -
  have "s = take i s @ drop i s" by simp
  also have "drop i s = take (length w) (drop i s) @ drop (length w) (drop i s)"
    by (rule append_take_drop_id [symmetric])
  finally show ?thesis
    using assms by (simp add: occurs_at_def add.commute)
qed

lemma sublist_iff_occurs_at: "sublist w s \<longleftrightarrow> (\<exists>i. occurs_at w s i)"
proof
  assume "sublist w s"
  then obtain p q where "s = p @ w @ q" by (auto simp: sublist_def)
  then show "\<exists>i. occurs_at w s i" using occurs_at_append by blast
next
  assume "\<exists>i. occurs_at w s i"
  then obtain i where "occurs_at w s i" by blast
  then have "s = take i s @ w @ drop (i + length w) s" by (rule occurs_at_split)
  then show "sublist w s" unfolding sublist_def by blast
qed

lemma occurs_at_map:
  "occurs_at (map f w) (map f s) i \<longleftrightarrow>
     i + length w \<le> length s \<and> map f (take (length w) (drop i s)) = map f w"
  by (simp add: occurs_at_def take_map drop_map)

lemma sublist_append_both: "sublist w s \<Longrightarrow> sublist w (p @ s @ q)"
  unfolding sublist_def by (metis append.assoc)

section \<open>Searching a list\<close>

text \<open>
  \<open>find\<close> returns the first element that satisfies the predicate; when at most one
  element of the list does, the order of the list does not matter.
\<close>

lemma find_Some_mem: "find P xs = Some x \<Longrightarrow> x \<in> set xs \<and> P x"
  by (auto simp: find_Some_iff)

lemma find_Some_unique:
  assumes "\<forall>x \<in> set xs. \<forall>y \<in> set xs. P x \<longrightarrow> P y \<longrightarrow> x = y"
  shows "find P xs = Some x \<longleftrightarrow> x \<in> set xs \<and> P x"
proof
  assume "find P xs = Some x"
  then show "x \<in> set xs \<and> P x" by (rule find_Some_mem)
next
  assume x: "x \<in> set xs \<and> P x"
  then obtain y where y: "find P xs = Some y"
    by (cases "find P xs") (auto simp: find_None_iff)
  with x assms have "y = x" by (blast dest: find_Some_mem)
  with y show "find P xs = Some x" by simp
qed

lemma find_same_set:
  assumes "set xs = set ys" and "\<forall>x \<in> set xs. \<forall>y \<in> set xs. P x \<longrightarrow> P y \<longrightarrow> x = y"
  shows "find P xs = find P ys"
proof (cases "find P xs")
  case None
  with assms(1) have "find P ys = None" by (simp add: find_None_iff)
  with None show ?thesis by simp
next
  case (Some x)
  with assms have "find P ys = Some x" by (simp add: find_Some_unique)
  with Some show ?thesis by simp
qed

end
