(* ===== verification/JS_Regex.thy ===== *)
theory JS_Regex
  imports Prelude
begin

text \<open>
  The fragment of ECMAScript regular expressions (ECMA-262, section 22.2) that the
  program relies on: the classifier's literal
  \<open>/Android|iPhone|iPad|iPod|Windows Phone|webOS|BlackBerry/i\<close> in \<open>src/main.js\<close>,
  and the patterns \<open>^/about/?$\<close> that vue-router compiles for the static routes of
  \<open>src/desktop/router/index.js\<close>. It holds the abstract syntax, the pattern parser,
  \<open>Canonicalize\<close> for the \<open>i\<close> flag, the backtracking matcher in
  continuation-passing style (CompileSubpattern), the search loop of
  \<open>RegExpBuiltinExec\<close> and \<open>RegExp.prototype.test\<close>; and a declarative
  reference semantics that the matcher and the loop are proved to implement.
\<close>

section \<open>Abstract syntax\<close>

text \<open>
  One constructor per production of the fragment: the empty alternative, a pattern
  character, an alternative followed by a term, a disjunction, the assertions \<open>^\<close>
  and \<open>$\<close>, and the greedy quantifier \<open>?\<close>.
\<close>

datatype pattern =
    PEmpty
  | PChar char
  | PSeq pattern pattern
  | PAlt pattern pattern
  | PBol
  | PEol
  | POpt pattern

record regexp =
  re_pattern :: pattern
  re_ignore_case :: bool

section \<open>Canonicalize\<close>

text \<open>
  \<open>Canonicalize(rer, ch)\<close> without the \<open>u\<close> flag: with \<open>ignoreCase\<close> the
  code unit is mapped to \<open>toUppercase\<close>, except where that gives more than one
  code unit (U+00DF) or maps a non-ASCII unit to ASCII (never in Latin-1). The result is
  a code point, since U+00B5 and U+00FF map outside Latin-1 (U+039C, U+0178).
\<close>

definition latin1_upper :: "nat \<Rightarrow> nat" where
  "latin1_upper n =
     (if 97 \<le> n \<and> n \<le> 122 then n - 32
      else if 224 \<le> n \<and> n \<le> 254 \<and> n \<noteq> 247 then n - 32
      else if n = 181 then 924
      else if n = 255 then 376
      else n)"

definition canonicalize :: "bool \<Rightarrow> char \<Rightarrow> nat" where
  "canonicalize ic ch = (if ic then latin1_upper (of_char ch) else of_char ch)"

section \<open>The backtracking matcher\<close>

text \<open>
  CompileSubpattern: a matcher takes the input, the current end index and a
  continuation, and returns the final end index of the whole match or failure
  (\<open>None\<close>). Sequencing passes the rest of the alternative as the continuation;
  a disjunction tries its left side first and backtracks into the right one;
  \<open>x?\<close> is RepeatMatcher with min 0 and max 1, greedy: it tries one iteration
  first, rejecting an iteration that consumes nothing, and falls back to none.
\<close>

primrec matcher :: "bool \<Rightarrow> pattern \<Rightarrow> js_string \<Rightarrow> nat \<Rightarrow> (nat \<Rightarrow> nat option) \<Rightarrow> nat option" where
  "matcher ic PEmpty s i k = k i"
| "matcher ic (PChar c) s i k =
     (if i < length s \<and> canonicalize ic (s ! i) = canonicalize ic c then k (Suc i) else None)"
| "matcher ic (PSeq p q) s i k = matcher ic p s i (\<lambda>j. matcher ic q s j k)"
| "matcher ic (PAlt p q) s i k =
     (case matcher ic p s i k of None \<Rightarrow> matcher ic q s i k | Some e \<Rightarrow> Some e)"
| "matcher ic PBol s i k = (if i = 0 then k i else None)"
| "matcher ic PEol s i k = (if i = length s then k i else None)"
| "matcher ic (POpt p) s i k =
     (case matcher ic p s i (\<lambda>j. if j = i then None else k j) of
        None \<Rightarrow> k i
      | Some e \<Rightarrow> Some e)"

section \<open>RegExpBuiltinExec and test\<close>

text \<open>
  Without the \<open>g\<close> and \<open>y\<close> flags, \<open>lastIndex\<close> starts at 0; the loop tries
  the matcher at each index, advancing by one code unit on failure, and gives up once
  the index passes the length of the input. The result is the match's start and end.
\<close>

function exec_from :: "regexp \<Rightarrow> js_string \<Rightarrow> nat \<Rightarrow> (nat \<times> nat) option" where
  "exec_from re s i =
     (if length s < i then None
      else case matcher (re_ignore_case re) (re_pattern re) s i Some of
             Some e \<Rightarrow> Some (i, e)
           | None \<Rightarrow> exec_from re s (Suc i))"
  by pat_completeness auto
termination
  by (relation "measure (\<lambda>(re, s, i). Suc (length s) - i)") auto

declare exec_from.simps [simp del]

definition regexp_exec :: "regexp \<Rightarrow> js_string \<Rightarrow> (nat \<times> nat) option" where
  "regexp_exec re s = exec_from re s 0"

definition regexp_test :: "regexp \<Rightarrow> js_string \<Rightarrow> bool" where
  "regexp_test re s \<longleftrightarrow> regexp_exec re s \<noteq> None"

text \<open>
  \<open>RegExp.prototype.test(S)\<close> first converts its argument with \<open>ToString\<close>: an
  absent value (\<open>undefined\<close>) is the text \<open>undefined\<close>, \<open>null\<close> the text
  \<open>null\<close>. The values the classifier can be given are these three kinds.
\<close>

datatype js_value = JUndefined | JNull | JStr js_string

fun js_to_string :: "js_value \<Rightarrow> js_string" where
  "js_to_string JUndefined = ''undefined''"
| "js_to_string JNull = ''null''"
| "js_to_string (JStr s) = s"

definition regexp_test_value :: "regexp \<Rightarrow> js_value \<Rightarrow> bool" where
  "regexp_test_value re v \<longleftrightarrow> regexp_test re (js_to_string v)"

section \<open>Reference semantics\<close>

text \<open>
  \<open>lang_at ic p s i j\<close>: the pattern \<open>p\<close> can match the code units of \<open>s\<close> from
  index \<open>i\<close> to index \<open>j\<close>. This says which spans match, with no search order; the
  matcher is proved to find one of them whenever the continuation accepts one.
\<close>

fun lang_at :: "bool \<Rightarrow> pattern \<Rightarrow> js_string \<Rightarrow> nat \<Rightarrow> nat \<Rightarrow> bool" where
  "lang_at ic PEmpty s i j \<longleftrightarrow> j = i"
| "lang_at ic (PChar c) s i j \<longleftrightarrow>
     i < length s \<and> canonicalize ic (s ! i) = canonicalize ic c \<and> j = Suc i"
| "lang_at ic (PSeq p q) s i j \<longleftrightarrow> (\<exists>k \<in> {i..j}. lang_at ic p s i k \<and> lang_at ic q s k j)"
| "lang_at ic (PAlt p q) s i j \<longleftrightarrow> lang_at ic p s i j \<or> lang_at ic q s i j"
| "lang_at ic PBol s i j \<longleftrightarrow> i = 0 \<and> j = i"
| "lang_at ic PEol s i j \<longleftrightarrow> i = length s \<and> j = i"
| "lang_at ic (POpt p) s i j \<longleftrightarrow> j = i \<or> lang_at ic p s i j"

lemma lang_at_le: "lang_at ic p s i j \<Longrightarrow> i \<le> j"
  by (induction p arbitrary: i j) force+

lemma lang_at_bound: "lang_at ic p s i j \<Longrightarrow> i \<le> length s \<Longrightarrow> j \<le> length s"
  by (induction p arbitrary: i j) auto

section \<open>The matcher implements the reference semantics\<close>

lemma matcher_sound:
  "matcher ic p s i k = Some e \<Longrightarrow> \<exists>j. lang_at ic p s i j \<and> k j = Some e"
proof (induction p arbitrary: i k e)
  case (PSeq p q)
  have "matcher ic p s i (\<lambda>j. matcher ic q s j k) = Some e"
    using PSeq.prems by simp
  then obtain m where m: "lang_at ic p s i m" "matcher ic q s m k = Some e"
    using PSeq.IH(1) by blast
  with PSeq.IH(2) obtain j where j: "lang_at ic q s m j" "k j = Some e"
    by blast
  have "m \<in> {i..j}" using lang_at_le [OF m(1)] lang_at_le [OF j(1)] by simp
  then have "lang_at ic (PSeq p q) s i j" using m(1) j(1) by auto
  with j(2) show ?case by blast
next
  case (PAlt p q)
  then show ?case
    by (cases "matcher ic p s i k") (fastforce dest: PAlt.IH)+
next
  case (POpt p)
  show ?case
  proof (cases "matcher ic p s i (\<lambda>j. if j = i then None else k j)")
    case None
    with POpt.prems show ?thesis by auto
  next
    case (Some e')
    with POpt.prems POpt.IH [OF Some] show ?thesis
      by (auto split: if_splits)
  qed
qed (auto split: if_splits)

lemma matcher_complete:
  "lang_at ic p s i j \<Longrightarrow> k j \<noteq> None \<Longrightarrow> matcher ic p s i k \<noteq> None"
proof (induction p arbitrary: i j k)
  case (PSeq p q)
  then obtain m where "lang_at ic p s i m" "lang_at ic q s m j"
    by auto
  with PSeq.IH PSeq.prems(2) show ?case by simp
next
  case (PAlt p q)
  from PAlt.prems have "lang_at ic p s i j \<or> lang_at ic q s i j" by simp
  then show ?case
  proof
    assume "lang_at ic p s i j"
    with PAlt.IH(1) PAlt.prems(2) have "matcher ic p s i k \<noteq> None" by blast
    then show ?thesis by (auto split: option.splits)
  next
    assume "lang_at ic q s i j"
    with PAlt.IH(2) PAlt.prems(2) have "matcher ic q s i k \<noteq> None" by blast
    then show ?thesis by (auto split: option.splits)
  qed
next
  case (POpt p)
  let ?k' = "\<lambda>j'. if j' = i then None else k j'"
  show ?case
  proof (cases "matcher ic p s i ?k'")
    case None
    have "j = i"
    proof (rule ccontr)
      assume "j \<noteq> i"
      with POpt.prems have "lang_at ic p s i j" "?k' j \<noteq> None" by auto
      with POpt.IH [of i j ?k'] None show False by simp
    qed
    with None POpt.prems show ?thesis by simp
  next
    case (Some e)
    then show ?thesis by simp
  qed
qed (auto split: if_splits)

section \<open>The search loop\<close>

abbreviation lang_re :: "regexp \<Rightarrow> js_string \<Rightarrow> nat \<Rightarrow> nat \<Rightarrow> bool" where
  "lang_re re \<equiv> lang_at (re_ignore_case re) (re_pattern re)"

lemma exec_from_sound:
  "exec_from re s i0 = Some (i, e) \<Longrightarrow>
     i0 \<le> i \<and> i \<le> length s \<and> lang_re re s i e \<and>
     (\<forall>i'. i0 \<le> i' \<and> i' < i \<longrightarrow> (\<forall>j. \<not> lang_re re s i' j))"
proof (induction re s i0 rule: exec_from.induct)
  case (1 re s i0)
  show ?case
  proof (cases "matcher (re_ignore_case re) (re_pattern re) s i0 Some")
    case None
    with "1.prems" have le: "i0 \<le> length s"
      and rec: "exec_from re s (Suc i0) = Some (i, e)"
      by (auto simp: exec_from.simps [of re s i0] split: if_splits)
    have none0: "\<forall>j. \<not> lang_re re s i0 j"
      using None matcher_complete [of _ _ s i0 _ Some] by fastforce
    have IH: "Suc i0 \<le> i \<and> i \<le> length s \<and> lang_re re s i e \<and>
        (\<forall>i'. Suc i0 \<le> i' \<and> i' < i \<longrightarrow> (\<forall>j. \<not> lang_re re s i' j))"
      using "1.IH" [OF _ None rec] le by simp
    have "\<forall>j. \<not> lang_re re s i' j" if "i0 \<le> i'" "i' < i" for i'
    proof (cases "i' = i0")
      case True
      with none0 show ?thesis by simp
    next
      case False
      with that IH show ?thesis by simp
    qed
    with IH show ?thesis by auto
  next
    case (Some e')
    with "1.prems" have "i = i0" "e = e'" "i0 \<le> length s"
      by (auto simp: exec_from.simps [of re s i0] split: if_splits)
    with Some show ?thesis by (auto dest: matcher_sound)
  qed
qed

lemma exec_from_complete:
  "i0 \<le> i \<Longrightarrow> i \<le> length s \<Longrightarrow> lang_re re s i j \<Longrightarrow> exec_from re s i0 \<noteq> None"
proof (induction re s i0 rule: exec_from.induct)
  case (1 re s i0)
  show ?case
  proof (cases "matcher (re_ignore_case re) (re_pattern re) s i0 Some")
    case None
    have "i0 \<noteq> i"
      using None "1.prems"(3)
        matcher_complete [of "re_ignore_case re" "re_pattern re" s i j Some] by auto
    with "1.prems" "1.IH" [OF _ None] None show ?thesis
      by (auto simp: exec_from.simps [of re s i0])
  next
    case (Some e)
    with "1.prems" show ?thesis by (auto simp: exec_from.simps [of re s i0])
  qed
qed

lemma regexp_test_iff:
  "regexp_test re s \<longleftrightarrow> (\<exists>i \<le> length s. \<exists>j. lang_re re s i j)"
proof
  assume "regexp_test re s"
  then obtain i e where "exec_from re s 0 = Some (i, e)"
    by (auto simp: regexp_test_def regexp_exec_def)
  then show "\<exists>i \<le> length s. \<exists>j. lang_re re s i j"
    by (blast dest: exec_from_sound)
next
  assume "\<exists>i \<le> length s. \<exists>j. lang_re re s i j"
  then obtain i j where "i \<le> length s" "lang_re re s i j" by blast
  then have "exec_from re s 0 \<noteq> None" by (intro exec_from_complete) simp_all
  then show "regexp_test re s"
    by (simp add: regexp_test_def regexp_exec_def)
qed

section \<open>Parsing a pattern\<close>

text \<open>
  The pattern grammar of the fragment. \<open>None\<close> is an early \<open>SyntaxError\<close> or a
  construct outside the fragment (groups, classes, \<open>.\<close>, \<open>*\<close>, \<open>+\<close>, braces).
  An identity escape \<open>\c\<close> of a syntax character or \<open>/\<close> is that character.
\<close>

definition syntax_chars :: "char list" where
  "syntax_chars = ''^$'' @ [CHR 0x5C] @ ''.*+?()[]{}|''"

definition parse_atom :: "char list \<Rightarrow> (pattern \<times> char list) option" where
  "parse_atom cs =
     (case cs of
        [] \<Rightarrow> None
      | c # rest \<Rightarrow>
          if c = CHR 0x5C then
            (case rest of
               d # rest' \<Rightarrow> if d \<in> set syntax_chars \<or> d = CHR ''/'' then Some (PChar d, rest') else None
             | [] \<Rightarrow> None)
          else if c \<in> set syntax_chars then None
          else Some (PChar c, rest))"

lemma parse_atom_shorter: "parse_atom cs = Some (a, rest) \<Longrightarrow> length rest < length cs"
  by (auto simp: parse_atom_def split: list.splits if_splits)

text \<open>
  \<open>parse_terms acc cs\<close> parses one Alternative, extending \<open>acc\<close> term by term,
  up to the end of the input or the next \<open>|\<close>, which it leaves in the rest.
\<close>

function parse_terms :: "pattern \<Rightarrow> char list \<Rightarrow> (pattern \<times> char list) option" where
  "parse_terms acc cs =
     (case cs of
        [] \<Rightarrow> Some (acc, [])
      | c # rest \<Rightarrow>
          if c = CHR ''|'' then Some (acc, cs)
          else if c = CHR ''^'' then parse_terms (PSeq acc PBol) rest
          else if c = CHR ''$'' then parse_terms (PSeq acc PEol) rest
          else (case parse_atom cs of
                  None \<Rightarrow> None
                | Some (a, rest') \<Rightarrow>
                    (case rest' of
                       d # rest'' \<Rightarrow>
                         if d = CHR ''?'' then parse_terms (PSeq acc (POpt a)) rest''
                         else parse_terms (PSeq acc a) rest'
                     | [] \<Rightarrow> Some (PSeq acc a, []))))"
  by pat_completeness auto
termination
  by (relation "measure (\<lambda>(acc, cs). length cs)") (auto dest: parse_atom_shorter)

declare parse_terms.simps [simp del]

lemma parse_terms_rest:
  "parse_terms acc cs = Some (a, rest) \<Longrightarrow> length rest \<le> length cs \<and> (rest = [] \<or> hd rest = CHR ''|'')"
proof (induction cs arbitrary: acc a rest rule: length_induct)
  case (1 cs)
  have IH: "length rest' \<le> length ys \<and> (rest' = [] \<or> hd rest' = CHR ''|'')"
    if "parse_terms acc' ys = Some (a', rest')" and "length ys < length cs" for ys acc' a' rest'
    using "1.IH" that by blast
  from "1.prems" show ?case
    by (subst (asm) parse_terms.simps)
       (fastforce split: if_splits option.splits list.splits dest: parse_atom_shorter IH)
qed

function parse_disjunction :: "char list \<Rightarrow> pattern option" where
  "parse_disjunction cs =
     (case parse_terms PEmpty cs of
        None \<Rightarrow> None
      | Some (a, []) \<Rightarrow> Some a
      | Some (a, _ # rest) \<Rightarrow> map_option (PAlt a) (parse_disjunction rest))"
  by pat_completeness auto
termination
  by (relation "measure length") (auto dest!: parse_terms_rest)

declare parse_disjunction.simps [simp del]

text \<open>
  RegExpInitialize: the flags of the fragment are none or \<open>i\<close>; the other flags
  change the matcher (\<open>g\<close>, \<open>y\<close>, \<open>m\<close>, \<open>s\<close>, \<open>u\<close>, \<open>v\<close>) and are outside it.
\<close>

definition regexp_create :: "js_string \<Rightarrow> js_string \<Rightarrow> regexp option" where
  "regexp_create src flags =
     (if flags = [] \<or> flags = ''i'' then
        map_option (\<lambda>p. \<lparr>re_pattern = p, re_ignore_case = (flags = ''i'')\<rparr>) (parse_disjunction src)
      else None)"

section \<open>Alternations of literal strings\<close>

text \<open>
  A pattern such as \<open>Android|iPhone\<close> is a disjunction of alternatives made of pattern
  characters only. \<open>literal w\<close> is the parse of the alternative \<open>w\<close>
  (built from the left, as the grammar does), \<open>alternation\<close> the right-nested
  disjunction, and \<open>join_alts\<close> prints such a pattern back as source text.
\<close>

definition literal :: "js_string \<Rightarrow> pattern" where
  "literal w = foldl (\<lambda>acc c. PSeq acc (PChar c)) PEmpty w"

fun alternation :: "pattern list \<Rightarrow> pattern" where
  "alternation [] = PEmpty"
| "alternation [p] = p"
| "alternation (p # ps) = PAlt p (alternation ps)"

fun join_alts :: "js_string list \<Rightarrow> js_string" where
  "join_alts [] = []"
| "join_alts [w] = w"
| "join_alts (w # ws) = w @ CHR ''|'' # join_alts ws"

definition plain_text :: "js_string \<Rightarrow> bool" where
  "plain_text w \<longleftrightarrow> (\<forall>c \<in> set w. c \<notin> set syntax_chars)"

lemma parse_terms_plain:
  assumes "plain_text w" and "rest = [] \<or> hd rest = CHR ''|''"
  shows "parse_terms acc (w @ rest) = Some (foldl (\<lambda>a c. PSeq a (PChar c)) acc w, rest)"
  using assms(1)
proof (induction w arbitrary: acc)
  case Nil
  from assms(2) show ?case
    by (cases rest) (auto simp: parse_terms.simps)
next
  case (Cons c w)
  then have c: "c \<notin> set syntax_chars" and w: "plain_text w"
    by (auto simp: plain_text_def)
  then have atom: "parse_atom (c # w @ rest) = Some (PChar c, w @ rest)"
    by (auto simp: parse_atom_def syntax_chars_def)
  have next_not_opt: "hd (w @ rest) \<noteq> CHR ''?''" if "w @ rest \<noteq> []"
    using that w assms(2) by (cases w) (auto simp: plain_text_def syntax_chars_def)
  have "c \<noteq> CHR ''|'' \<and> c \<noteq> CHR ''^'' \<and> c \<noteq> CHR ''$''"
    using c by (auto simp: syntax_chars_def)
  then have "parse_terms acc (c # w @ rest) =
      (case w @ rest of
         d # rest'' \<Rightarrow> if d = CHR ''?'' then parse_terms (PSeq acc (POpt (PChar c))) rest''
                      else parse_terms (PSeq acc (PChar c)) (w @ rest)
       | [] \<Rightarrow> Some (PSeq acc (PChar c), []))"
    using atom by (simp add: parse_terms.simps [of acc "c # w @ rest"])
  also have "\<dots> = parse_terms (PSeq acc (PChar c)) (w @ rest)"
    using next_not_opt by (cases "w @ rest") (auto simp: parse_terms.simps)
  also have "\<dots> = Some (foldl (\<lambda>a c. PSeq a (PChar c)) acc (c # w), rest)"
    using Cons.IH [OF w] by simp
  finally show ?case by simp
qed

lemma parse_join_alts:
  "ws \<noteq> [] \<Longrightarrow> \<forall>w \<in> set ws. plain_text w \<Longrightarrow>
     parse_disjunction (join_alts ws) = Some (alternation (map literal ws))"
proof (induction ws rule: join_alts.induct)
  case (2 w)
  then show ?case
    using parse_terms_plain [of w "[]" PEmpty]
    by (simp add: parse_disjunction.simps literal_def)
next
  case (3 w v vs)
  have "parse_terms PEmpty (w @ CHR ''|'' # join_alts (v # vs)) =
      Some (literal w, CHR ''|'' # join_alts (v # vs))"
    using parse_terms_plain [of w "CHR ''|'' # join_alts (v # vs)" PEmpty] "3.prems"
    by (simp add: literal_def)
  with "3.IH" "3.prems" show ?case
    by (simp add: parse_disjunction.simps [of "w @ CHR ''|'' # join_alts (v # vs)"])
qed simp

abbreviation chars_after :: "pattern \<Rightarrow> js_string \<Rightarrow> pattern" where
  "chars_after acc w \<equiv> foldl (\<lambda>a c. PSeq a (PChar c)) acc w"

lemma lang_at_chars_after:
  "i \<le> length s \<Longrightarrow> lang_at ic (chars_after acc w) s i j \<longleftrightarrow>
     (\<exists>k. lang_at ic acc s i k \<and> j = k + length w \<and> j \<le> length s \<and>
          map (canonicalize ic) (take (length w) (drop k s)) = map (canonicalize ic) w)"
proof (induction w arbitrary: j rule: rev_induct)
  case Nil
  then show ?case by (auto dest: lang_at_bound)
next
  case (snoc c w)
  have seq: "chars_after acc (w @ [c]) = PSeq (chars_after acc w) (PChar c)"
    by simp
  have step: "map (canonicalize ic) (take (Suc (length w)) (drop k s)) = map (canonicalize ic) (w @ [c]) \<longleftrightarrow>
      map (canonicalize ic) (take (length w) (drop k s)) = map (canonicalize ic) w \<and>
      canonicalize ic (s ! (k + length w)) = canonicalize ic c"
    if "k + length w < length s" for k
    using that by (simp add: take_Suc_conv_app_nth add.commute)
  show ?case
  proof
    assume "lang_at ic (chars_after acc (w @ [c])) s i j"
    then obtain m where m: "lang_at ic (chars_after acc w) s i m" "m < length s"
      "canonicalize ic (s ! m) = canonicalize ic c" "j = Suc m"
      by (auto simp only: seq lang_at.simps)
    with snoc obtain k where "lang_at ic acc s i k" "m = k + length w"
      "map (canonicalize ic) (take (length w) (drop k s)) = map (canonicalize ic) w"
      by auto
    with m step [of k] show "\<exists>k. lang_at ic acc s i k \<and> j = k + length (w @ [c]) \<and> j \<le> length s \<and>
      map (canonicalize ic) (take (length (w @ [c])) (drop k s)) = map (canonicalize ic) (w @ [c])"
      by auto
  next
    assume "\<exists>k. lang_at ic acc s i k \<and> j = k + length (w @ [c]) \<and> j \<le> length s \<and>
      map (canonicalize ic) (take (length (w @ [c])) (drop k s)) = map (canonicalize ic) (w @ [c])"
    then obtain k where k: "lang_at ic acc s i k" "j = Suc (k + length w)" "j \<le> length s"
      "map (canonicalize ic) (take (Suc (length w)) (drop k s)) = map (canonicalize ic) (w @ [c])"
      by auto
    then have lt: "k + length w < length s" by simp
    with k step [OF lt] snoc.IH [OF snoc.prems, of "k + length w"]
    have A: "lang_at ic (chars_after acc w) s i (k + length w)" by auto
    have B: "lang_at ic (PChar c) s (k + length w) j"
      using k step [OF lt] lt by simp
    have "k + length w \<in> {i..j}" using lang_at_le [OF A] lang_at_le [OF B] by simp
    with A B show "lang_at ic (chars_after acc (w @ [c])) s i j"
      unfolding seq lang_at.simps(3) by blast
  qed
qed

lemma lang_at_literal:
  "i \<le> length s \<Longrightarrow> lang_at ic (literal w) s i j \<longleftrightarrow>
     j = i + length w \<and> j \<le> length s \<and>
     map (canonicalize ic) (take (length w) (drop i s)) = map (canonicalize ic) w"
  by (simp add: literal_def lang_at_chars_after)

lemma lang_at_alternation:
  "ps \<noteq> [] \<Longrightarrow> lang_at ic (alternation ps) s i j \<longleftrightarrow> (\<exists>p \<in> set ps. lang_at ic p s i j)"
  by (induction ps rule: alternation.induct) auto

lemma regexp_test_literals:
  assumes "ws \<noteq> []"
  shows "regexp_test \<lparr>re_pattern = alternation (map literal ws), re_ignore_case = ic\<rparr> s \<longleftrightarrow>
     (\<exists>w \<in> set ws. sublist (map (canonicalize ic) w) (map (canonicalize ic) s))"
proof -
  have "regexp_test \<lparr>re_pattern = alternation (map literal ws), re_ignore_case = ic\<rparr> s \<longleftrightarrow>
      (\<exists>w \<in> set ws. \<exists>i \<le> length s. \<exists>j. lang_at ic (literal w) s i j)"
    using assms by (auto simp: regexp_test_iff lang_at_alternation)
  also have "\<dots> \<longleftrightarrow> (\<exists>w \<in> set ws. \<exists>i. occurs_at (map (canonicalize ic) w) (map (canonicalize ic) s) i)"
    (is "?L \<longleftrightarrow> ?R")
  proof
    assume ?L
    then obtain w i j where "w \<in> set ws" "i \<le> length s" "lang_at ic (literal w) s i j"
      by blast
    then show ?R by (auto simp: lang_at_literal occurs_at_map)
  next
    assume ?R
    then obtain w i where w: "w \<in> set ws" and o: "occurs_at (map (canonicalize ic) w) (map (canonicalize ic) s) i"
      by blast
    then have "i \<le> length s" by (simp add: occurs_at_def)
    with o have "lang_at ic (literal w) s i (i + length w)"
      by (simp add: lang_at_literal occurs_at_map)
    with w \<open>i \<le> length s\<close> show ?L by blast
  qed
  finally show ?thesis by (simp add: sublist_iff_occurs_at)
qed

section \<open>Properties of the engine\<close>

text \<open>
  C6. The backtracking matcher implements the reference semantics: from index \<open>i\<close>,
  with continuation \<open>k\<close>, it succeeds exactly when the pattern matches some span
  \<open>[i, j)\<close> of the input whose end the continuation accepts.
\<close>

theorem matcher_correct:
  "matcher ic p s i k \<noteq> None \<longleftrightarrow> (\<exists>j. lang_at ic p s i j \<and> k j \<noteq> None)"
proof
  assume "matcher ic p s i k \<noteq> None"
  then obtain e where "matcher ic p s i k = Some e" by auto
  from matcher_sound [OF this] show "\<exists>j. lang_at ic p s i j \<and> k j \<noteq> None" by auto
next
  assume "\<exists>j. lang_at ic p s i j \<and> k j \<noteq> None"
  then obtain j where "lang_at ic p s i j" and "k j \<noteq> None" by blast
  then show "matcher ic p s i k \<noteq> None" by (rule matcher_complete)
qed

text \<open>
  C7. \<open>RegExpBuiltinExec\<close> returns a real match, and the leftmost one: its start
  index is within the input, the pattern matches the returned span, and no match starts
  at an earlier index.
\<close>

theorem regexp_exec_leftmost:
  assumes "regexp_exec re s = Some (i, e)"
  shows "i \<le> length s \<and> lang_re re s i e \<and> (\<forall>i' < i. \<forall>j. \<not> lang_re re s i' j)"
  using exec_from_sound [of re s 0 i e] assms by (simp add: regexp_exec_def)

theorem regexp_exec_leftmost_witness:
  "regexp_exec \<lparr>re_pattern = PSeq (PChar CHR ''a'') (POpt (PChar CHR ''b'')), re_ignore_case = False\<rparr> ''xab'' = Some (1, 3) \<and>
   lang_at False (PSeq (PChar CHR ''a'') (POpt (PChar CHR ''b''))) ''xab'' 1 3 \<and>
   (\<forall>j. \<not> lang_at False (PSeq (PChar CHR ''a'') (POpt (PChar CHR ''b''))) ''xab'' 0 j)"
proof -
  have h: "regexp_exec \<lparr>re_pattern = PSeq (PChar CHR ''a'') (POpt (PChar CHR ''b'')), re_ignore_case = False\<rparr> ''xab'' = Some (1, 3)"
    by code_simp
  show ?thesis using h regexp_exec_leftmost [OF h] by simp
qed

text \<open>
  C8. The search loop of \<open>RegExpBuiltinExec\<close> misses no match: if the pattern matches
  a span starting at an index within the input, \<open>exec\<close> returns a match, starting
  at that index or before it.
\<close>

theorem regexp_exec_finds_match:
  assumes "i \<le> length s" and "lang_re re s i j"
  shows "\<exists>i' e. regexp_exec re s = Some (i', e) \<and> i' \<le> i"
proof -
  have "exec_from re s 0 \<noteq> None"
    using exec_from_complete [of 0 i s re j] assms by simp
  then obtain i' e where r: "exec_from re s 0 = Some (i', e)" by auto
  have "i' \<le> i"
  proof (rule ccontr)
    assume "\<not> i' \<le> i"
    with exec_from_sound [OF r] assms(2) show False by auto
  qed
  with r show ?thesis by (simp add: regexp_exec_def)
qed

theorem regexp_exec_finds_match_witness:
  "(0::nat) \<le> length [] \<and> lang_at True PEol [] 0 0 \<and>
   (\<exists>i' e. regexp_exec \<lparr>re_pattern = PEol, re_ignore_case = True\<rparr> [] = Some (i', e) \<and> i' \<le> 0)"
proof -
  have h1: "(0::nat) \<le> length []" by simp
  have h2: "lang_re \<lparr>re_pattern = PEol, re_ignore_case = True\<rparr> [] 0 0" by simp
  show ?thesis using h1 h2 regexp_exec_finds_match [OF h1 h2] by simp
qed

end
