(* ===== verification/Device_Classifier.thy ===== *)
theory Device_Classifier
  imports JS_Regex
begin

text \<open>
  The device classifier of \<open>src/main.js\<close>, lines 5 to 7:
  \<^verbatim>\<open>const isMobile = /Android|iPhone|iPad|iPod|Windows Phone|webOS|BlackBerry/i.test(
    navigator.userAgent)\<close>
  The literal is parsed by the pattern parser of \<open>JS_Regex\<close> (an invalid literal would be
  an early error, so the script would not run at all) and \<open>is_mobile\<close> runs
  \<open>RegExp.prototype.test\<close> on the user agent. The contract of the specification
  (section 4.1: mobile iff the string contains one of the seven tokens, ignoring ASCII
  case) is \<open>classify\<close>, stated without regular expressions; the theory proves that
  the code refines it and derives the specification's testable properties.
\<close>

section \<open>The code\<close>

definition mobile_source :: js_string where
  "mobile_source = ''Android|iPhone|iPad|iPod|Windows Phone|webOS|BlackBerry''"

definition mobile_regexp :: regexp where
  "mobile_regexp = the (regexp_create mobile_source ''i'')"

definition is_mobile :: "js_string \<Rightarrow> bool" where
  "is_mobile user_agent \<longleftrightarrow> regexp_test mobile_regexp user_agent"

text \<open>The same test on the value of \<open>navigator.userAgent\<close>, which may be absent.\<close>

definition is_mobile_of :: "js_value \<Rightarrow> bool" where
  "is_mobile_of v \<longleftrightarrow> regexp_test_value mobile_regexp v"

section \<open>The specification's contract\<close>

datatype device_class = Mobile | Desktop

definition mobile_tokens :: "js_string list" where
  "mobile_tokens = [''Android'', ''iPhone'', ''iPad'', ''iPod'', ''Windows Phone'', ''webOS'', ''BlackBerry'']"

definition ascii_lower :: "char \<Rightarrow> char" where
  "ascii_lower c = (let n = (of_char c :: nat) in if 65 \<le> n \<and> n \<le> 90 then char_of (n + 32) else c)"

definition contains_ci :: "js_string \<Rightarrow> js_string \<Rightarrow> bool" where
  "contains_ci token s \<longleftrightarrow> sublist (map ascii_lower token) (map ascii_lower s)"

definition classify :: "js_string \<Rightarrow> device_class" where
  "classify s = (if \<exists>token \<in> set mobile_tokens. contains_ci token s then Mobile else Desktop)"

definition device_of :: "bool \<Rightarrow> device_class" where
  "device_of mobile = (if mobile then Mobile else Desktop)"

section \<open>The literal\<close>

lemma mobile_source_join: "mobile_source = join_alts mobile_tokens"
  by (simp add: mobile_source_def mobile_tokens_def)

lemma mobile_tokens_plain: "\<forall>w \<in> set mobile_tokens. plain_text w"
  by (simp add: mobile_tokens_def plain_text_def syntax_chars_def)

lemma mobile_regexp_create:
  "regexp_create mobile_source ''i'' =
     Some \<lparr>re_pattern = alternation (map literal mobile_tokens), re_ignore_case = True\<rparr>"
  using parse_join_alts [OF _ mobile_tokens_plain]
  by (simp add: regexp_create_def mobile_source_join mobile_tokens_def)

lemma mobile_regexp_eq:
  "mobile_regexp = \<lparr>re_pattern = alternation (map literal mobile_tokens), re_ignore_case = True\<rparr>"
  by (simp add: mobile_regexp_def mobile_regexp_create)

section \<open>Case folding\<close>

text \<open>
  With the \<open>i\<close> flag the engine compares \<open>Canonicalize\<close>d code units (upper case over
  Latin-1); the contract folds ASCII letters only. Against an ASCII token the two agree:
  no Latin-1 code unit outside ASCII canonicalizes to an ASCII value.
\<close>

lemma of_char_ascii_lower:
  "(of_char (ascii_lower c) :: nat) =
     (let n = (of_char c :: nat) in if 65 \<le> n \<and> n \<le> 90 then n + 32 else n)"
  by (simp add: ascii_lower_def Let_def)

lemma latin1_upper_vs_ascii_fold:
  fixes n m :: nat
  assumes "n < 256" and "m < 128"
  shows "latin1_upper n = latin1_upper m \<longleftrightarrow>
    (if 65 \<le> n \<and> n \<le> 90 then n + 32 else n) = (if 65 \<le> m \<and> m \<le> 90 then m + 32 else m)"
  using assms unfolding latin1_upper_def by (auto split: if_splits)

lemma canonicalize_ascii:
  assumes "of_char b < (128::nat)"
  shows "canonicalize True a = canonicalize True b \<longleftrightarrow> ascii_lower a = ascii_lower b"
proof -
  have "ascii_lower a = ascii_lower b \<longleftrightarrow> of_char (ascii_lower a) = (of_char (ascii_lower b) :: nat)"
    by (simp only: of_char_eq_iff)
  also have "\<dots> \<longleftrightarrow> latin1_upper (of_char a) = latin1_upper (of_char b)"
    using latin1_upper_vs_ascii_fold [OF nat_of_char_less_256 assms]
    by (simp only: of_char_ascii_lower Let_def)
  finally show ?thesis by (simp add: canonicalize_def)
qed

definition ascii :: "js_string \<Rightarrow> bool" where
  "ascii w \<longleftrightarrow> (\<forall>c \<in> set w. of_char c < (128::nat))"

lemma map_canonicalize_ascii:
  "ascii w \<Longrightarrow> map (canonicalize True) v = map (canonicalize True) w \<longleftrightarrow> map ascii_lower v = map ascii_lower w"
proof (induction w arbitrary: v)
  case Nil
  then show ?case by simp
next
  case (Cons c w)
  then show ?case
    by (cases v) (auto simp: ascii_def canonicalize_ascii)
qed

lemma sublist_canonicalize_ascii:
  assumes "ascii w"
  shows "sublist (map (canonicalize True) w) (map (canonicalize True) s) \<longleftrightarrow>
         sublist (map ascii_lower w) (map ascii_lower s)"
  using assms
  by (simp add: sublist_iff_occurs_at occurs_at_map map_canonicalize_ascii)

lemma mobile_tokens_ascii: "\<forall>w \<in> set mobile_tokens. ascii w"
  by (simp add: mobile_tokens_def ascii_def)

section \<open>Refinement of the contract\<close>

lemma is_mobile_iff_tokens:
  "is_mobile s \<longleftrightarrow> (\<exists>token \<in> set mobile_tokens. contains_ci token s)"
proof -
  have "is_mobile s \<longleftrightarrow>
      (\<exists>w \<in> set mobile_tokens. sublist (map (canonicalize True) w) (map (canonicalize True) s))"
    unfolding is_mobile_def mobile_regexp_eq
    by (rule regexp_test_literals) (simp add: mobile_tokens_def)
  also have "\<dots> \<longleftrightarrow> (\<exists>token \<in> set mobile_tokens. contains_ci token s)"
    using mobile_tokens_ascii by (auto simp: contains_ci_def sublist_canonicalize_ascii)
  finally show ?thesis .
qed

lemma is_mobile_ascii_lower_eq:
  "map ascii_lower s = map ascii_lower s' \<Longrightarrow> is_mobile s \<longleftrightarrow> is_mobile s'"
  by (simp add: is_mobile_iff_tokens contains_ci_def)

text \<open>An absent user agent (\<open>undefined\<close> or \<open>null\<close>) is converted to a string that holds no token.\<close>

lemma is_mobile_of_cases:
  "is_mobile_of v \<longleftrightarrow> (case v of JStr s \<Rightarrow> is_mobile s | _ \<Rightarrow> False)"
proof -
  have "\<not> is_mobile ''undefined''" "\<not> is_mobile ''null''" by code_simp+
  then show ?thesis
    by (cases v) (simp_all add: is_mobile_of_def is_mobile_def regexp_test_value_def)
qed

section \<open>Properties of the classifier\<close>

text \<open>
  C1. The code refines the specification's contract: the classification that
  \<open>src/main.js\<close> computes with the regular expression is the one the specification
  defines by case-insensitive containment of one of the seven tokens.
\<close>

theorem classifier_refines_contract: "device_of (is_mobile s) = classify s"
  by (simp add: device_of_def classify_def is_mobile_iff_tokens)

text \<open>
  C2. A user agent that contains a mobile token, in any letter case and with any text
  around it, is classified as mobile (the specification's first testable property, for
  \<open>Android\<close> and for every other token).
\<close>

theorem mobile_token_anywhere:
  assumes "token \<in> set mobile_tokens" and "map ascii_lower t = map ascii_lower token"
  shows "is_mobile (p @ t @ q)"
proof -
  have "sublist (map ascii_lower token) (map ascii_lower (p @ t @ q))"
    using assms(2) by (simp add: sublist_def) blast
  with assms(1) show ?thesis
    by (auto simp: is_mobile_iff_tokens contains_ci_def)
qed

theorem mobile_token_anywhere_witness:
  "''Android'' \<in> set mobile_tokens \<and> map ascii_lower ''aNDROID'' = map ascii_lower ''Android'' \<and>
   is_mobile (''Mozilla/5.0 (Linux; '' @ ''aNDROID'' @ '' 10)'')"
proof -
  have h1: "''Android'' \<in> set mobile_tokens" by (simp add: mobile_tokens_def)
  have h2: "map ascii_lower ''aNDROID'' = map ascii_lower ''Android''" by code_simp
  show ?thesis
    using h1 h2 mobile_token_anywhere [OF h1 h2, of "''Mozilla/5.0 (Linux; ''" "'' 10)''"] by simp
qed

text \<open>
  C3. A user agent that contains none of the tokens, ignoring case, is classified as
  desktop (the specification's second testable property).
\<close>

theorem no_token_desktop:
  "(\<forall>token \<in> set mobile_tokens. \<not> contains_ci token s) \<Longrightarrow> device_of (is_mobile s) = Desktop"
  by (simp add: device_of_def is_mobile_iff_tokens)

theorem no_token_desktop_witness:
  "device_of (is_mobile ''Mozilla/5.0 (X11; Linux x86_64)'') = Desktop"
proof -
  have h: "\<forall>token \<in> set mobile_tokens. \<not> contains_ci token ''Mozilla/5.0 (X11; Linux x86_64)''"
    by code_simp
  show ?thesis by (rule no_token_desktop [OF h])
qed

text \<open>
  C4. The classification ignores ASCII letter case: two user agents that differ only in
  the case of their letters are classified alike.
\<close>

theorem is_mobile_case_insensitive:
  "map ascii_lower s = map ascii_lower s' \<Longrightarrow> is_mobile s = is_mobile s'"
  by (rule is_mobile_ascii_lower_eq)

theorem is_mobile_case_insensitive_witness:
  "map ascii_lower ''IPHONE OS'' = map ascii_lower ''iphone os'' \<and>
   is_mobile ''IPHONE OS'' = is_mobile ''iphone os''"
proof -
  have h: "map ascii_lower ''IPHONE OS'' = map ascii_lower ''iphone os''" by code_simp
  show ?thesis using h is_mobile_case_insensitive [OF h] by simp
qed

text \<open>
  C5. Matching is by substring: a mobile user agent stays mobile whatever text is added
  before or after it (the specification's edge-case policy of section 4.1).
\<close>

theorem is_mobile_superstring: "is_mobile s \<Longrightarrow> is_mobile (p @ s @ q)"
  by (auto simp: is_mobile_iff_tokens contains_ci_def intro: sublist_append_both)

theorem is_mobile_superstring_witness:
  "is_mobile ''iPad'' \<and> is_mobile (''Mozilla/5.0 ('' @ ''iPad'' @ ''; CPU OS 12_2)'')"
proof -
  have h: "is_mobile ''iPad''" by code_simp
  show ?thesis using h is_mobile_superstring [OF h, of "''Mozilla/5.0 (''" "''; CPU OS 12_2)''"] by simp
qed

end
