(* ===== verification/Path_Tokenizer.thy ===== *)
theory Path_Tokenizer
  imports Prelude
begin

text \<open>
  vue-router's \<open>tokenizePath\<close>, which the router of \<open>src/desktop/router/index.js\<close>
  applies to every path of its table before compiling it. The model keeps the
  tokenizer's two states that a path without parameters reaches: \<open>Static\<close> and
  \<open>EscapeNext\<close>, with \<open>previousState\<close>. A backslash in any of them saves the current
  state and enters \<open>EscapeNext\<close>; the next character is then added to the buffer
  literally and the saved state restored. \<open>consumeBuffer\<close> throws (\<open>crash\<close>) when
  the buffer is not empty and the state is not \<open>Static\<close>. A \<open>:\<close> in the static state
  opens a parameter, which the model leaves out: the step returns \<open>None\<close> there, and
  the properties below are stated for paths without \<open>:\<close> where they depend on it.
  A thrown error of \<open>tokenizePath\<close> is \<open>None\<close>.

  \<open>tokens_path\<close> prints a tokenized path back, escaping \<open>/\<close> and \<open>:\<close>;
  \<open>static_segment\<close> is the shape of every segment the tokenizer produces.
\<close>

section \<open>The tokenizer\<close>

datatype token = Static js_string

fun token_value :: "token \<Rightarrow> js_string" where
  "token_value (Static v) = v"

datatype tokenizer_state = TStatic | TEscapeNext

record tokenizer =
  tk_state :: tokenizer_state
  tk_previous :: tokenizer_state
  tk_buffer :: js_string
  tk_segment :: "token list option"
  tk_tokens :: "token list list"

definition tokenizer_init :: tokenizer where
  "tokenizer_init =
     \<lparr>tk_state = TStatic, tk_previous = TStatic, tk_buffer = [], tk_segment = None, tk_tokens = []\<rparr>"

text \<open>
  \<open>consumeBuffer\<close> pushes the buffered text as a static token on the current segment;
  it throws outside the static state (\<open>None\<close> for the segment: none has been opened
  yet, which a path starting with \<open>/\<close> never meets). \<open>finalizeSegment\<close> closes the
  current segment, if any, and opens a new one.
\<close>

definition consume_buffer :: "tokenizer \<Rightarrow> tokenizer option" where
  "consume_buffer t =
     (if tk_buffer t = [] then Some t
      else if tk_state t \<noteq> TStatic then None
      else case tk_segment t of
             None \<Rightarrow> None
           | Some seg \<Rightarrow> Some (t\<lparr>tk_segment := Some (seg @ [Static (tk_buffer t)]), tk_buffer := []\<rparr>))"

definition finalize_segment :: "tokenizer \<Rightarrow> tokenizer" where
  "finalize_segment t =
     t\<lparr>tk_tokens := tk_tokens t @ (case tk_segment t of None \<Rightarrow> [] | Some seg \<Rightarrow> [seg]),
       tk_segment := Some []\<rparr>"

text \<open>One iteration of the loop over the characters.\<close>

definition tokenizer_step :: "tokenizer \<Rightarrow> char \<Rightarrow> tokenizer option" where
  "tokenizer_step t c =
     (if c = CHR 0x5C then Some (t\<lparr>tk_previous := tk_state t, tk_state := TEscapeNext\<rparr>)
      else case tk_state t of
        TStatic \<Rightarrow>
          if c = CHR ''/'' then map_option finalize_segment (consume_buffer t)
          else if c = CHR '':'' then None
          else Some (t\<lparr>tk_buffer := tk_buffer t @ [c]\<rparr>)
      | TEscapeNext \<Rightarrow> Some (t\<lparr>tk_buffer := tk_buffer t @ [c], tk_state := tk_previous t\<rparr>))"

fun tokenize_chars :: "tokenizer \<Rightarrow> js_string \<Rightarrow> tokenizer option" where
  "tokenize_chars t [] = Some t"
| "tokenize_chars t (c # cs) =
     (case tokenizer_step t c of None \<Rightarrow> None | Some t' \<Rightarrow> tokenize_chars t' cs)"

definition tokenize_path :: "js_string \<Rightarrow> token list list option" where
  "tokenize_path p =
     (if p = [] then Some [[]]
      else if p = ''/'' then Some [[Static []]]
      else if hd p \<noteq> CHR ''/'' then None
      else case tokenize_chars tokenizer_init p of
             None \<Rightarrow> None
           | Some t \<Rightarrow> map_option (tk_tokens \<circ> finalize_segment) (consume_buffer t))"

section \<open>Printing tokens back\<close>

text \<open>
  A segment prints as \<open>/\<close> followed by its text with \<open>/\<close> and \<open>:\<close> escaped; the
  tokens of the empty path, one empty segment, print as the empty path.
  \<open>tk_render\<close> prints a tokenizer state whose open segment is empty.
\<close>

definition escape_path :: "js_string \<Rightarrow> js_string" where
  "escape_path v = concat (map (\<lambda>c. if c = CHR ''/'' \<or> c = CHR '':'' then [CHR 0x5C, c] else [c]) v)"

definition segments_path :: "token list list \<Rightarrow> js_string" where
  "segments_path segs = concat (map (\<lambda>seg. CHR ''/'' # escape_path (concat (map token_value seg))) segs)"

definition tokens_path :: "token list list \<Rightarrow> js_string" where
  "tokens_path segs = (if segs = [[]] then [] else segments_path segs)"

fun static_segment :: "token list \<Rightarrow> bool" where
  "static_segment [] = True"
| "static_segment [Static v] = (v \<noteq> [] \<and> CHR 0x5C \<notin> set v)"
| "static_segment _ = False"

definition tk_render :: "tokenizer \<Rightarrow> js_string" where
  "tk_render t = segments_path (tk_tokens t) @ CHR ''/'' # escape_path (tk_buffer t)"

definition tk_inv :: "tokenizer \<Rightarrow> bool" where
  "tk_inv t \<longleftrightarrow> tk_segment t = Some [] \<and> CHR 0x5C \<notin> set (tk_buffer t) \<and> list_all static_segment (tk_tokens t)"

section \<open>Lemmas\<close>

lemma consume_buffer_open:
  "tk_state t = TStatic \<Longrightarrow> tk_segment t = Some seg \<Longrightarrow> consume_buffer t =
     Some (if tk_buffer t = [] then t else t\<lparr>tk_segment := Some (seg @ [Static (tk_buffer t)]), tk_buffer := []\<rparr>)"
  by (simp add: consume_buffer_def)

lemma tokenizer_step_inv:
  assumes "tk_inv t" and "tokenizer_step t c = Some t'"
  shows "tk_inv t'"
proof (cases "c = CHR 0x5C")
  case True
  with assms show ?thesis by (auto simp: tokenizer_step_def tk_inv_def)
next
  case False
  show ?thesis
  proof (cases "tk_state t")
    case TStatic
    with False assms show ?thesis
      by (auto simp: tokenizer_step_def tk_inv_def consume_buffer_open finalize_segment_def split: if_splits)
  next
    case TEscapeNext
    with False assms show ?thesis by (auto simp: tokenizer_step_def tk_inv_def)
  qed
qed

lemma tokenize_chars_inv: "tk_inv t \<Longrightarrow> tokenize_chars t cs = Some t' \<Longrightarrow> tk_inv t'"
  by (induction t cs rule: tokenize_chars.induct) (auto split: option.splits dest: tokenizer_step_inv)

lemma finish_inv:
  assumes "tk_inv t" and "consume_buffer t = Some t2"
  shows "list_all static_segment (tk_tokens (finalize_segment t2)) \<and> tk_tokens (finalize_segment t2) \<noteq> []"
  using assms by (auto simp: tk_inv_def consume_buffer_def finalize_segment_def split: if_splits)

lemma tokenize_chars_init_slash:
  "tokenize_chars tokenizer_init (CHR ''/'' # cs) = tokenize_chars (tokenizer_init\<lparr>tk_segment := Some []\<rparr>) cs"
  by (simp add: tokenizer_init_def tokenizer_step_def consume_buffer_def finalize_segment_def)

lemma tokenize_path_slash:
  "cs \<noteq> [] \<Longrightarrow> tokenize_path (CHR ''/'' # cs) =
     (case tokenize_chars (tokenizer_init\<lparr>tk_segment := Some []\<rparr>) cs of
        None \<Rightarrow> None
      | Some t \<Rightarrow> map_option (tk_tokens \<circ> finalize_segment) (consume_buffer t))"
  by (simp add: tokenize_path_def tokenize_chars_init_slash del: tokenize_chars.simps)

lemma tokenize_path_cases:
  assumes "tokenize_path p = Some segs"
  obtains "p = []" "segs = [[]]"
  | "p = ''/''" "segs = [[Static []]]"
  | cs t t2 where "p = CHR ''/'' # cs" "cs \<noteq> []"
      "tokenize_chars (tokenizer_init\<lparr>tk_segment := Some []\<rparr>) cs = Some t"
      "consume_buffer t = Some t2" "segs = tk_tokens (finalize_segment t2)"
proof (cases p)
  case Nil
  then show ?thesis using assms that(1) by (simp add: tokenize_path_def)
next
  case (Cons c cs)
  have c: "c = CHR ''/''" using assms Cons by (auto simp: tokenize_path_def split: if_splits)
  show ?thesis
  proof (cases "cs = []")
    case True
    then show ?thesis using assms Cons c that(2) by (simp add: tokenize_path_def)
  next
    case False
    then show ?thesis using assms Cons c that(3) tokenize_path_slash [OF False]
      by (auto split: option.splits)
  qed
qed

lemma tokenize_path_static:
  assumes "tokenize_path p = Some segs"
  shows "(p = ''/'' \<and> segs = [[Static []]]) \<or> (segs \<noteq> [] \<and> list_all static_segment segs)"
  using assms
proof (cases rule: tokenize_path_cases)
  case 1
  then show ?thesis by simp
next
  case 2
  then show ?thesis by simp
next
  case (3 cs t t2)
  have "tk_inv (tokenizer_init\<lparr>tk_segment := Some []\<rparr>)" by (simp add: tk_inv_def tokenizer_init_def)
  then have "tk_inv t" using 3 tokenize_chars_inv by blast
  then show ?thesis using 3(4,5) finish_inv [of t t2] by simp
qed

lemma tokenize_chars_append:
  "tokenize_chars t (xs @ ys) = (case tokenize_chars t xs of None \<Rightarrow> None | Some t' \<Rightarrow> tokenize_chars t' ys)"
  by (induction t xs rule: tokenize_chars.induct) (simp_all split: option.splits)

lemma tokenize_chars_escaped:
  "tk_state t = TStatic \<Longrightarrow> tk_previous t = TStatic \<Longrightarrow> CHR 0x5C \<notin> set v \<Longrightarrow>
     tokenize_chars t (escape_path v) = Some (t\<lparr>tk_buffer := tk_buffer t @ v\<rparr>)"
proof (induction v arbitrary: t rule: rev_induct)
  case Nil
  then show ?case by (simp add: escape_path_def)
next
  case (snoc c v)
  then have r: "tokenize_chars t (escape_path v) = Some (t\<lparr>tk_buffer := tk_buffer t @ v\<rparr>)" by simp
  have "escape_path (v @ [c]) = escape_path v @ (if c = CHR ''/'' \<or> c = CHR '':'' then [CHR 0x5C, c] else [c])"
    by (simp add: escape_path_def)
  with r snoc.prems show ?case
    by (auto simp: tokenize_chars_append tokenizer_step_def)
qed

lemma escape_path_Nil [simp]: "escape_path v = [] \<longleftrightarrow> v = []"
  by (induction v) (simp_all add: escape_path_def)

lemma static_segment_cases:
  "static_segment seg \<Longrightarrow> seg = [] \<or> (\<exists>v. seg = [Static v] \<and> v \<noteq> [] \<and> CHR 0x5C \<notin> set v)"
  by (induction seg rule: static_segment.induct) simp_all

lemma static_segment_text_bs: "static_segment seg \<Longrightarrow> CHR 0x5C \<notin> set (concat (map token_value seg))"
  by (induction seg rule: static_segment.induct) simp_all

lemma tokenizer_step_slash:
  "tk_state t = TStatic \<Longrightarrow> tk_segment t = Some [] \<Longrightarrow>
     tokenizer_step t CHR ''/'' =
       Some (t\<lparr>tk_tokens := tk_tokens t @ [if tk_buffer t = [] then [] else [Static (tk_buffer t)]], tk_buffer := []\<rparr>)"
  by (simp add: tokenizer_step_def consume_buffer_def finalize_segment_def)

text \<open>A \<open>/\<close> or the end of the path after a static segment's text closes that segment.\<close>

lemma static_segment_slash:
  assumes "static_segment seg" and "tk_state t = TStatic" and "tk_segment t = Some []"
  shows "tokenizer_step (t\<lparr>tk_buffer := concat (map token_value seg)\<rparr>) CHR ''/'' =
           Some (t\<lparr>tk_tokens := tk_tokens t @ [seg], tk_buffer := []\<rparr>)"
  using static_segment_cases [OF assms(1)] assms(2,3)
  by (auto simp: tokenizer_step_def consume_buffer_def finalize_segment_def)

lemma static_segment_finish:
  assumes "static_segment seg" and "tk_state t = TStatic" and "tk_segment t = Some []"
  shows "map_option (tk_tokens \<circ> finalize_segment) (consume_buffer (t\<lparr>tk_buffer := concat (map token_value seg)\<rparr>)) =
           Some (tk_tokens t @ [seg])"
  using static_segment_cases [OF assms(1)] assms(2,3)
  by (auto simp: consume_buffer_def finalize_segment_def)

lemma tokenize_chars_segments:
  assumes "tk_state t = TStatic" "tk_previous t = TStatic" "tk_segment t = Some []" "tk_buffer t = []"
    and "list_all static_segment (s # ss)"
  shows "tokenize_chars t (escape_path (concat (map token_value s)) @ segments_path ss) =
     Some (t\<lparr>tk_tokens := tk_tokens t @ butlast (s # ss), tk_buffer := concat (map token_value (last (s # ss)))\<rparr>)"
  using assms
proof (induction ss arbitrary: s t)
  case Nil
  then show ?case
    using tokenize_chars_escaped [of t] static_segment_text_bs [of s] by (simp add: segments_path_def)
next
  case (Cons s' ss)
  let ?t1 = "t\<lparr>tk_tokens := tk_tokens t @ [s]\<rparr>"
  have e: "tokenize_chars t (escape_path (concat (map token_value s))) =
      Some (t\<lparr>tk_buffer := concat (map token_value s)\<rparr>)"
    using tokenize_chars_escaped [of t] static_segment_text_bs [of s] Cons.prems by simp
  have sl: "tokenizer_step (t\<lparr>tk_buffer := concat (map token_value s)\<rparr>) CHR ''/'' = Some ?t1"
    using static_segment_slash [of s t] Cons.prems by simp
  have ih: "tokenize_chars ?t1 (escape_path (concat (map token_value s')) @ segments_path ss) =
      Some (?t1\<lparr>tk_tokens := tk_tokens ?t1 @ butlast (s' # ss), tk_buffer := concat (map token_value (last (s' # ss)))\<rparr>)"
    using Cons.IH [of ?t1 s'] Cons.prems by simp
  have "segments_path (s' # ss) = CHR ''/'' # escape_path (concat (map token_value s')) @ segments_path ss"
    by (simp add: segments_path_def)
  then show ?case using e sl ih by (simp add: tokenize_chars_append)
qed

lemma tokens_path_tokenize:
  assumes "segs \<noteq> []" and "segs \<noteq> [[]]" and "list_all static_segment segs"
  shows "tokenize_path (tokens_path segs) = Some segs"
proof -
  obtain s ss where segs: "segs = s # ss" using assms(1) by (cases segs) auto
  let ?v = "concat (map token_value s)"
  let ?t1 = "tokenizer_init\<lparr>tk_segment := Some []\<rparr>"
  have p: "tokens_path segs = CHR ''/'' # (escape_path ?v @ segments_path ss)"
    using assms(2) by (simp add: tokens_path_def segments_path_def segs)
  have ne: "escape_path ?v @ segments_path ss \<noteq> []"
  proof (cases ss)
    case Nil
    then have "s \<noteq> []" using assms(2) segs by simp
    then have "?v \<noteq> []" using assms(3) segs static_segment_cases [of s] by auto
    then show ?thesis by simp
  next
    case (Cons a list)
    then show ?thesis by (simp add: segments_path_def)
  qed
  have run: "tokenize_chars ?t1 (escape_path ?v @ segments_path ss) =
      Some (?t1\<lparr>tk_tokens := butlast segs, tk_buffer := concat (map token_value (last segs))\<rparr>)"
    using tokenize_chars_segments [of ?t1 s ss] assms(3) segs by (simp add: tokenizer_init_def)
  have l: "static_segment (last segs)" using assms(1,3) by (simp add: list_all_iff)
  have f: "map_option (tk_tokens \<circ> finalize_segment)
      (consume_buffer (?t1\<lparr>tk_tokens := butlast segs, tk_buffer := concat (map token_value (last segs))\<rparr>)) =
      Some (butlast segs @ [last segs])"
    using static_segment_finish [OF l, of "?t1\<lparr>tk_tokens := butlast segs\<rparr>"] by (simp add: tokenizer_init_def)
  have "butlast segs @ [last segs] = segs" using assms(1) by simp
  then show ?thesis using tokenize_path_slash [OF ne] run f p by simp
qed

text \<open>On a path without backslashes the tokenizer stays in the static state: it fails exactly on a \<open>:\<close>, and otherwise its state prints the text read so far.\<close>

lemma tokenizer_step_plain:
  assumes "tk_state t = TStatic" "tk_segment t = Some []" "c \<noteq> CHR 0x5C" "c \<noteq> CHR '':''"
  shows "\<exists>t'. tokenizer_step t c = Some t' \<and> tk_state t' = TStatic \<and> tk_segment t' = Some [] \<and>
           tk_render t' = tk_render t @ [c]"
proof (cases "c = CHR ''/''")
  case True
  then show ?thesis using assms(1,2) tokenizer_step_slash [of t]
    by (simp add: tk_render_def segments_path_def)
next
  case False
  then show ?thesis using assms
    by (simp add: tokenizer_step_def tk_render_def escape_path_def)
qed

lemma tokenize_chars_plain:
  assumes "tk_state t = TStatic" "tk_segment t = Some []" "CHR 0x5C \<notin> set cs"
  shows "(tokenize_chars t cs = None \<longleftrightarrow> CHR '':'' \<in> set cs) \<and>
         (\<forall>t'. tokenize_chars t cs = Some t' \<longrightarrow>
            tk_state t' = TStatic \<and> tk_segment t' = Some [] \<and> tk_render t' = tk_render t @ cs)"
  using assms
proof (induction cs arbitrary: t)
  case Nil
  then show ?case by simp
next
  case (Cons c cs)
  show ?case
  proof (cases "c = CHR '':''")
    case True
    then show ?thesis using Cons.prems(1) by (simp add: tokenizer_step_def)
  next
    case False
    then obtain t1 where t1: "tokenizer_step t c = Some t1" "tk_state t1 = TStatic" "tk_segment t1 = Some []"
      "tk_render t1 = tk_render t @ [c]"
      using tokenizer_step_plain [of t c] Cons.prems by auto
    then show ?thesis using Cons.IH [of t1] Cons.prems(3) False by simp
  qed
qed

lemma tokenize_finish_render:
  assumes "tk_state t = TStatic" "tk_segment t = Some []"
  shows "\<exists>t2. consume_buffer t = Some t2 \<and> segments_path (tk_tokens (finalize_segment t2)) = tk_render t"
  using assms by (simp add: consume_buffer_def finalize_segment_def tk_render_def segments_path_def)

section \<open>Properties of the tokenizer\<close>

text \<open>
  C26. Errors of \<open>tokenizePath\<close> on paths without parameters or escapes: such a
  non-empty path is rejected (vue-router throws \<open>Route paths should start with a
  "/"\<close>) exactly when it does not start with \<open>/\<close>.
\<close>

theorem tokenize_path_None_iff:
  assumes "p \<noteq> []" and "CHR '':'' \<notin> set p" and "CHR 0x5C \<notin> set p"
  shows "tokenize_path p = None \<longleftrightarrow> hd p \<noteq> CHR ''/''"
proof (cases p)
  case Nil
  then show ?thesis using assms(1) by simp
next
  case (Cons c cs)
  show ?thesis
  proof (cases "c = CHR ''/'' \<and> cs \<noteq> []")
    case True
    let ?t1 = "tokenizer_init\<lparr>tk_segment := Some []\<rparr>"
    have s: "tk_state ?t1 = TStatic" "tk_segment ?t1 = Some []" by (simp_all add: tokenizer_init_def)
    obtain t where t: "tokenize_chars ?t1 cs = Some t" "tk_state t = TStatic" "tk_segment t = Some []"
      using tokenize_chars_plain [OF s] assms(2,3) Cons by (cases "tokenize_chars ?t1 cs") auto
    obtain t2 where "consume_buffer t = Some t2" using tokenize_finish_render [OF t(2,3)] by blast
    then show ?thesis using tokenize_path_slash [of cs] True t(1) Cons by simp
  next
    case False
    then show ?thesis using Cons by (auto simp: tokenize_path_def)
  qed
qed

theorem tokenize_path_None_iff_witness:
  "''about'' \<noteq> [] \<and> CHR '':'' \<notin> set ''about'' \<and> CHR 0x5C \<notin> set ''about'' \<and> tokenize_path ''about'' = None"
proof -
  have h: "''about'' \<noteq> []" "CHR '':'' \<notin> set ''about''" "CHR 0x5C \<notin> set ''about''" by simp_all
  show ?thesis using tokenize_path_None_iff [OF h] h by simp
qed

text \<open>
  C27. Round trip of \<open>tokenizePath\<close>: printing the segments a path tokenizes to
  (each as \<open>/\<close> and its text, \<open>/\<close> and \<open>:\<close> escaped) gives a path that tokenizes
  to the same segments; and a path without backslashes prints back as itself, empty
  and trailing segments included.
\<close>

theorem tokenize_path_roundtrip:
  assumes "tokenize_path p = Some segs"
  shows "tokenize_path (tokens_path segs) = Some segs \<and> (CHR 0x5C \<notin> set p \<longrightarrow> tokens_path segs = p)"
  using assms
proof (cases rule: tokenize_path_cases)
  case 1
  then show ?thesis by (simp add: tokens_path_def tokenize_path_def)
next
  case 2
  then show ?thesis by (simp add: tokens_path_def segments_path_def escape_path_def tokenize_path_def)
next
  case (3 cs t t2)
  have st: "segs \<noteq> [] \<and> list_all static_segment segs" using tokenize_path_static [OF assms] 3(1,2) by auto
  have first: "tokenize_path (tokens_path segs) = Some segs"
  proof (cases "segs = [[]]")
    case True
    then show ?thesis by (simp add: tokens_path_def tokenize_path_def)
  next
    case False
    then show ?thesis using tokens_path_tokenize st by blast
  qed
  have "tokens_path segs = p" if bs: "CHR 0x5C \<notin> set p"
  proof -
    let ?t1 = "tokenizer_init\<lparr>tk_segment := Some []\<rparr>"
    have s: "tk_state ?t1 = TStatic" "tk_segment ?t1 = Some []" by (simp_all add: tokenizer_init_def)
    have run: "tk_state t = TStatic \<and> tk_segment t = Some [] \<and> tk_render t = tk_render ?t1 @ cs"
      using tokenize_chars_plain [OF s] bs 3 by simp
    have r1: "tk_render ?t1 = ''/''" by (simp add: tk_render_def segments_path_def tokenizer_init_def)
    have sp: "segments_path segs = p"
      using tokenize_finish_render [of t] run r1 3 by auto
    have "segs \<noteq> [[]]"
    proof
      assume "segs = [[]]"
      then have "segments_path segs = ''/''" by (simp add: segments_path_def)
      with sp 3(1,2) show False by simp
    qed
    with sp show ?thesis by (simp add: tokens_path_def)
  qed
  with first show ?thesis by blast
qed

theorem tokenize_path_roundtrip_witness:
  "tokenize_path ''/books/'' = Some [[Static ''books''], []] \<and>
   tokenize_path (tokens_path [[Static ''books''], []]) = Some [[Static ''books''], []] \<and>
   tokens_path [[Static ''books''], []] = ''/books/''"
proof -
  have h: "tokenize_path ''/books/'' = Some [[Static ''books''], []]" by code_simp
  show ?thesis using tokenize_path_roundtrip [OF h] h by simp
qed



end
