(* ===== verification/Router.thy ===== *)
theory Router
  imports JS_Regex Path_Tokenizer
begin

text \<open>
  The router of \<open>src/desktop/router/index.js\<close>: the routing table \<open>routes\<close>
  (lines 10 to 26) and \<open>createRouter({history: createWebHistory(BASE_URL), routes})\<close>
  (lines 28 to 31). What the router does with the table is vue-router's: each route's
  path is tokenized (\<open>tokenizePath\<close>), compiled to a regular expression
  (\<open>tokensToParser\<close> with the default options \<open>sensitive: false\<close>,
  \<open>strict: false\<close>, \<open>end: true\<close>) and a location path is resolved to the first
  route whose expression matches it; the HTML5 history strips the normalized base
  from the browser's pathname first. The tokenizer is the theory \<open>Path_Tokenizer\<close>;
  the compilation is modelled for the static tokens it produces, the only kind the
  table has.
\<close>

section \<open>The routing table\<close>

record route_record =
  path :: js_string
  name :: js_string
  component :: view_module

definition routes :: "route_record list" where
  "routes =
     [\<lparr>path = ''/'', name = ''Home'', component = HomePage\<rparr>,
      \<lparr>path = ''/about'', name = ''About'', component = About\<rparr>,
      \<lparr>path = ''/books'', name = ''Books'', component = Books\<rparr>]"

section \<open>Compiling a path to a regular expression (tokensToParser)\<close>

definition regex_chars :: "char list" where
  "regex_chars = ''.+*?^${}()[]/'' @ [CHR 0x5C]"

definition escape_regex :: "js_string \<Rightarrow> js_string" where
  "escape_regex v = concat (map (\<lambda>c. if c \<in> set regex_chars then [CHR 0x5C, c] else [c]) v)"

text \<open>A segment contributes \<open>/\<close> before its first token and each token's escaped text; an empty segment contributes nothing when \<open>strict\<close> is off.\<close>

definition segment_text :: "token list \<Rightarrow> js_string" where
  "segment_text seg = (if seg = [] then [] else CHR ''/'' # concat (map (escape_regex \<circ> token_value) seg))"

definition tokens_to_pattern :: "token list list \<Rightarrow> js_string" where
  "tokens_to_pattern segs = ''^'' @ concat (map segment_text segs) @ ''/?$''"

definition compile_path :: "js_string \<Rightarrow> regexp option" where
  "compile_path p =
     (case tokenize_path p of None \<Rightarrow> None | Some segs \<Rightarrow> regexp_create (tokens_to_pattern segs) ''i'')"

section \<open>Resolving a location path\<close>

definition route_matches :: "route_record \<Rightarrow> js_string \<Rightarrow> bool" where
  "route_matches r p \<longleftrightarrow> (case compile_path (path r) of None \<Rightarrow> False | Some re \<Rightarrow> regexp_test re p)"

definition resolve_path :: "route_record list \<Rightarrow> js_string \<Rightarrow> route_record option" where
  "resolve_path rs p = find (\<lambda>r. route_matches r p) rs"

section \<open>HTML5 history and the router object\<close>

text \<open>
  \<open>normalizeBase\<close>: an empty base is \<open>/\<close> (no \<open><base>\<close> element in the page),
  a leading \<open>/\<close> is added, one trailing \<open>/\<close> removed. \<open>stripBase\<close> removes the
  base from the pathname when the pathname starts with it ignoring case
  (\<open>toLowerCase\<close>, Latin-1), and yields \<open>/\<close> for an empty rest.
\<close>

definition remove_trailing_slash :: "js_string \<Rightarrow> js_string" where
  "remove_trailing_slash s = (if s \<noteq> [] \<and> last s = CHR ''/'' then butlast s else s)"

definition normalize_base :: "js_string \<Rightarrow> js_string" where
  "normalize_base b =
     (let b1 = (if b = [] then ''/'' else b);
          b2 = (if hd b1 \<noteq> CHR ''/'' \<and> hd b1 \<noteq> CHR ''#'' then CHR ''/'' # b1 else b1)
      in remove_trailing_slash b2)"

definition latin1_lower :: "char \<Rightarrow> char" where
  "latin1_lower c =
     (let n = (of_char c :: nat)
      in if (65 \<le> n \<and> n \<le> 90) \<or> (192 \<le> n \<and> n \<le> 222 \<and> n \<noteq> 215) then char_of (n + 32) else c)"

definition strip_base :: "js_string \<Rightarrow> js_string \<Rightarrow> js_string" where
  "strip_base pathname base =
     (if base = [] \<or> \<not> prefix (map latin1_lower base) (map latin1_lower pathname) then pathname
      else let rest = drop (length base) pathname in if rest = [] then ''/'' else rest)"

record router =
  history_base :: js_string
  router_routes :: "route_record list"

definition create_router :: "js_string \<Rightarrow> route_record list \<Rightarrow> router" where
  "create_router base rs = \<lparr>history_base = normalize_base base, router_routes = rs\<rparr>"

text \<open>The module's default export; \<open>import.meta.env.BASE_URL\<close> is a build-time parameter.\<close>

definition app_router :: "js_string \<Rightarrow> router" where
  "app_router base_url = create_router base_url routes"

definition current_route :: "router \<Rightarrow> js_string \<Rightarrow> route_record option" where
  "current_route rt pathname = resolve_path (router_routes rt) (strip_base pathname (history_base rt))"

section \<open>Compiled route patterns\<close>

text \<open>
  For a static path \<open>w\<close> the compiled pattern is \<open>^w/?$\<close>: the start assertion,
  the characters of \<open>w\<close>, an optional slash and the end assertion.
\<close>

definition anchored_route :: "js_string \<Rightarrow> pattern" where
  "anchored_route w = PSeq (PSeq (chars_after (PSeq PEmpty PBol) w) (POpt (PChar CHR ''/''))) PEol"

lemma lang_at_bol_prefix: "lang_at ic (PSeq PEmpty PBol) s i k \<longleftrightarrow> i = 0 \<and> k = 0"
  by auto

lemma lang_at_anchored:
  assumes "i \<le> length s"
  shows "lang_at ic (anchored_route w) s i j \<longleftrightarrow>
    i = 0 \<and> j = length s \<and> length w \<le> length s \<and>
    map (canonicalize ic) (take (length w) s) = map (canonicalize ic) w \<and>
    (length s = length w \<or>
     (length s = Suc (length w) \<and> canonicalize ic (s ! length w) = canonicalize ic CHR ''/''))"
  using assms
  by (auto simp: anchored_route_def lang_at_chars_after lang_at_bol_prefix)

lemma map_take_snoc:
  assumes "length s = Suc (length w)"
  shows "map f s = map f w @ [d] \<longleftrightarrow> map f (take (length w) s) = map f w \<and> f (s ! length w) = d"
proof -
  have "s = take (length w) s @ [s ! length w]"
    using assms by (simp add: take_Suc_conv_app_nth [symmetric])
  then have "map f s = map f (take (length w) s) @ [f (s ! length w)]"
    by (metis list.simps(8) list.simps(9) map_append)
  then show ?thesis by simp
qed

lemma map_eq_length: "map f s = map f w \<Longrightarrow> length s = length w"
  by (metis length_map)

lemma map_eq_snoc_length: "map f s = map f w @ [d] \<Longrightarrow> length s = Suc (length w)"
  by (metis length_map length_append_singleton)

lemma regexp_test_anchored:
  "regexp_test \<lparr>re_pattern = anchored_route w, re_ignore_case = ic\<rparr> s \<longleftrightarrow>
     map (canonicalize ic) s = map (canonicalize ic) w \<or>
     map (canonicalize ic) s = map (canonicalize ic) (w @ ''/'')"
proof -
  have "regexp_test \<lparr>re_pattern = anchored_route w, re_ignore_case = ic\<rparr> s \<longleftrightarrow>
     map (canonicalize ic) (take (length w) s) = map (canonicalize ic) w \<and>
     (length s = length w \<or>
      (length s = Suc (length w) \<and> canonicalize ic (s ! length w) = canonicalize ic CHR ''/''))"
    by (auto simp: regexp_test_iff lang_at_anchored)
  also have "\<dots> \<longleftrightarrow> map (canonicalize ic) s = map (canonicalize ic) w \<or>
     map (canonicalize ic) s = map (canonicalize ic) (w @ ''/'')"
  proof (cases "length s = Suc (length w)")
    case True
    then show ?thesis by (auto simp: map_take_snoc dest: map_eq_length)
  next
    case False
    then show ?thesis
      by (auto dest: map_eq_length map_eq_snoc_length) (metis map_eq_length order.refl take_all)
  qed
  finally show ?thesis .
qed

lemma compile_routes:
  "compile_path ''/'' = Some \<lparr>re_pattern = anchored_route ''/'', re_ignore_case = True\<rparr>"
  "compile_path ''/about'' = Some \<lparr>re_pattern = anchored_route ''/about'', re_ignore_case = True\<rparr>"
  "compile_path ''/books'' = Some \<lparr>re_pattern = anchored_route ''/books'', re_ignore_case = True\<rparr>"
  by (simp_all add: anchored_route_def) code_simp+

lemma route_matches_routes:
  "r \<in> set routes \<Longrightarrow> route_matches r p \<longleftrightarrow>
     map (canonicalize True) p = map (canonicalize True) (path r) \<or>
     map (canonicalize True) p = map (canonicalize True) (path r @ ''/'')"
  by (auto simp: routes_def route_matches_def compile_routes regexp_test_anchored)

lemma routes_disjoint:
  "r \<in> set routes \<Longrightarrow> r' \<in> set routes \<Longrightarrow> route_matches r p \<Longrightarrow> route_matches r' p \<Longrightarrow> r = r'"
  by (auto simp: route_matches_routes) (auto simp: routes_def canonicalize_def latin1_upper_def)

lemma strip_normalized_base:
  "p \<noteq> [] \<Longrightarrow> strip_base (normalize_base b @ p) (normalize_base b) = p"
  by (simp add: strip_base_def)

section \<open>Properties of the router\<close>

text \<open>
  C9. No location path is matched by two routes of the table: a path that a route
  matches resolves to that route, and no other route of the table matches it, so the
  route a path resolves to never depends on which matching route is tried first.
\<close>

theorem route_resolution_unique:
  assumes "r \<in> set routes" and "route_matches r p"
  shows "resolve_path routes p = Some r \<and> (\<forall>r' \<in> set routes. route_matches r' p \<longrightarrow> r' = r)"
proof -
  have u: "\<forall>x \<in> set routes. \<forall>y \<in> set routes. route_matches x p \<longrightarrow> route_matches y p \<longrightarrow> x = y"
    using routes_disjoint by blast
  have "resolve_path routes p = Some r"
    unfolding resolve_path_def using find_Some_unique [OF u] assms by blast
  with u assms show ?thesis by blast
qed

theorem route_resolution_unique_witness:
  "resolve_path routes ''/About/'' = Some \<lparr>path = ''/about'', name = ''About'', component = About\<rparr> \<and>
   \<not> route_matches \<lparr>path = ''/'', name = ''Home'', component = HomePage\<rparr> ''/About/'' \<and>
   \<not> route_matches \<lparr>path = ''/books'', name = ''Books'', component = Books\<rparr> ''/About/''"
proof -
  have h: "\<lparr>path = ''/about'', name = ''About'', component = About\<rparr> \<in> set routes"
    by (simp add: routes_def)
  have m: "route_matches \<lparr>path = ''/about'', name = ''About'', component = About\<rparr> ''/About/''"
    by (simp add: route_matches_def compile_routes) code_simp
  have o: "\<lparr>path = ''/'', name = ''Home'', component = HomePage\<rparr> \<in> set routes"
    "\<lparr>path = ''/books'', name = ''Books'', component = Books\<rparr> \<in> set routes"
    by (simp_all add: routes_def)
  show ?thesis using route_resolution_unique [OF h m] o by auto
qed

text \<open>
  C10. A route of the table matches a location path exactly when the path equals the
  route's path, or the route's path followed by one slash, ignoring letter case
  (vue-router's defaults \<open>sensitive: false\<close> and \<open>strict: false\<close>).
\<close>

theorem route_matches_iff:
  assumes "r \<in> set routes"
  shows "route_matches r p \<longleftrightarrow>
     map (canonicalize True) p = map (canonicalize True) (path r) \<or>
     map (canonicalize True) p = map (canonicalize True) (path r @ ''/'')"
  using route_matches_routes [OF assms] .

theorem route_matches_iff_witness:
  "route_matches \<lparr>path = ''/books'', name = ''Books'', component = Books\<rparr> ''/BOOKS/''"
proof -
  have h: "\<lparr>path = ''/books'', name = ''Books'', component = Books\<rparr> \<in> set routes"
    by (simp add: routes_def)
  have "map (canonicalize True) ''/BOOKS/'' = map (canonicalize True) (''/books'' @ ''/'')"
    by code_simp
  with route_matches_iff [OF h] show ?thesis by simp
qed

text \<open>
  C11. Resolution does not depend on the order of the table: vue-router tries the
  routes in the order of their scores, and any order of the same routes gives the same
  result.
\<close>

theorem resolve_order_independent:
  "set rs = set routes \<Longrightarrow> resolve_path rs p = resolve_path routes p"
  unfolding resolve_path_def
  by (rule find_same_set) (auto dest: routes_disjoint)

theorem resolve_order_independent_witness:
  "resolve_path (rev routes) ''/books/'' = resolve_path routes ''/books/''"
  by (rule resolve_order_independent) simp

text \<open>
  C12. The history base is transparent: with any build-time base, the browser pathname
  made of the normalized base followed by a non-empty path resolves to the route of
  that path (a deployment under a sub-path serves the same routes).
\<close>

theorem current_route_under_base:
  "p \<noteq> [] \<Longrightarrow> current_route (app_router b) (normalize_base b @ p) = resolve_path routes p"
  by (simp add: current_route_def app_router_def create_router_def strip_normalized_base)

theorem current_route_under_base_witness:
  "current_route (app_router ''/mypoems/'') (normalize_base ''/mypoems/'' @ ''/books'') =
   resolve_path routes ''/books''"
  by (rule current_route_under_base) simp

end
