(* ===== verification/Vue_Runtime.thy ===== *)
theory Vue_Runtime
  imports Router
begin

text \<open>
  The part of Vue's runtime that the entry points call: \<open>createApp(App)\<close>,
  \<open>app.use(router)\<close> and \<open>app.mount('#app')\<close> (\<open>src/main.js\<close>, lines 16 to 18;
  \<open>src/desktop/components/js/main.js\<close>, line 5). An application instance keeps its
  root component, its installed plugins, whether it is mounted and its container.
  The document is reduced to the ids of its elements and what each element renders.
  Vue's behaviour on misuse is kept: \<open>use\<close> of an installed plugin only warns, a
  second \<open>mount\<close> warns after clearing its container, and \<open>mount\<close> on a selector that finds no element warns and
  returns without mounting; none of them throws.
\<close>

record vue_app =
  app_root :: view_module
  app_plugins :: "router list"
  app_mounted :: bool
  app_container :: "js_string option"

record dom =
  element_ids :: "js_string list"
  rendered :: "js_string \<rightharpoonup> view_module \<times> router list"

definition create_app :: "view_module \<Rightarrow> vue_app" where
  "create_app root = \<lparr>app_root = root, app_plugins = [], app_mounted = False, app_container = None\<rparr>"

text \<open>
  \<open>app.use(plugin)\<close>: a plugin already in \<open>installedPlugins\<close> is skipped with a
  warning; otherwise it is added and its \<open>install\<close> runs, which for the router
  registers \<open>RouterView\<close>, \<open>RouterLink\<close> and \<open>$router\<close> on the application.
\<close>

definition app_use :: "vue_app \<Rightarrow> router \<Rightarrow> vue_app" where
  "app_use a plugin =
     (if plugin \<in> set (app_plugins a) then a else a\<lparr>app_plugins := app_plugins a @ [plugin]\<rparr>)"

text \<open>\<open>document.querySelector\<close> for the id selectors the sources use.\<close>

definition query_selector :: "js_string \<Rightarrow> dom \<Rightarrow> js_string option" where
  "query_selector sel d =
     (case sel of
        c # ident \<Rightarrow> if c = CHR ''#'' \<and> ident \<in> set (element_ids d) then Some ident else None
      | [] \<Rightarrow> None)"

text \<open>
  \<open>app.mount(selector)\<close> (runtime-dom): a selector that finds no element warns and
  returns; otherwise the container's content is cleared (\<open>container.textContent = ''\<close>)
  before the core \<open>mount\<close> checks \<open>isMounted\<close>, so a second mount leaves the
  application as it is and the container empty.
\<close>

definition app_mount :: "vue_app \<Rightarrow> js_string \<Rightarrow> dom \<Rightarrow> vue_app \<times> dom" where
  "app_mount a sel d =
     (case query_selector sel d of
        None \<Rightarrow> (a, d)
      | Some el \<Rightarrow>
          if app_mounted a then (a, d\<lparr>rendered := (rendered d)(el := None)\<rparr>)
          else (a\<lparr>app_mounted := True, app_container := Some el\<rparr>,
                d\<lparr>rendered := (rendered d)(el \<mapsto> (app_root a, app_plugins a))\<rparr>))"

lemma app_use_create: "app_use (create_app v) rt = \<lparr>app_root = v, app_plugins = [rt], app_mounted = False, app_container = None\<rparr>"
  by (simp add: app_use_def create_app_def)

lemma query_selector_app: "query_selector ''#app'' d = (if ''app'' \<in> set (element_ids d) then Some ''app'' else None)"
  by (simp add: query_selector_def)

lemma app_mount_fresh:
  "\<not> app_mounted a \<Longrightarrow> app_mount a ''#app'' d =
     (if ''app'' \<in> set (element_ids d)
      then (a\<lparr>app_mounted := True, app_container := Some ''app''\<rparr>,
            d\<lparr>rendered := (rendered d)(''app'' \<mapsto> (app_root a, app_plugins a))\<rparr>)
      else (a, d))"
  by (simp add: app_mount_def query_selector_app)

lemma app_mount_element_ids: "element_ids (snd (app_mount a sel d)) = element_ids d"
  by (simp add: app_mount_def split: option.splits)

end
