(* ===== verification/Bootstrap.thy ===== *)
theory Bootstrap
  imports Device_Classifier Vue_Runtime
begin

text \<open>
  The bootstrap sequence of \<open>src/main.js\<close>. Evaluating the module (lines 1 to 14)
  imports the router, classifies the user agent, starts the dynamic import of the
  selected root view and registers a fulfilment reaction; everything else happens in
  later jobs of the event loop. The environment decides when the loader settles the
  import's promise, fulfilled or rejected; a fulfilled promise queues the reaction,
  whose microtask runs the callback of lines 14 to 19 (create the application, install
  the router, mount on \<open>#app\<close>). A rejected promise has no rejection handler: the
  promise returned by \<open>then\<close> is rejected too and reported as an unhandled
  rejection.

  The page is a record of that state, the environment's and event loop's actions are
  the events, and \<open>page_step\<close> is the transition function. A promise settles at
  most once (its resolving functions ignore later calls), so settling events after the
  first leave the page unchanged. \<open>reachable\<close> collects the states of every
  sequence of events from a fresh page; the safety properties are invariants of it,
  proved by rule induction.
\<close>

section \<open>State and events\<close>

datatype load_error = LoadError js_string

datatype import_state = Pending | Fulfilled view_module | Rejected load_error

record page =
  user_agent :: js_string
  base_url :: js_string
  page_dom :: dom
  import_request :: "view_module option"
  import_promise :: "import_state option"
  reaction_queued :: bool
  app :: "vue_app option"
  unhandled :: "load_error list"

datatype event = EvaluateMain | LoaderFulfils | LoaderRejects load_error | RunMicrotask

definition init_page :: "js_string \<Rightarrow> js_string \<Rightarrow> js_string list \<Rightarrow> page" where
  "init_page ua base ids =
     \<lparr>user_agent = ua, base_url = base,
      page_dom = \<lparr>element_ids = ids, rendered = Map.empty\<rparr>,
      import_request = None, import_promise = None, reaction_queued = False,
      app = None, unhandled = []\<rparr>"

section \<open>The code of main.js\<close>

text \<open>Lines 10 to 12: the root view module the dynamic import requests.\<close>

definition root_view_for :: "bool \<Rightarrow> view_module" where
  "root_view_for mobile = (if mobile then MobileApp else DesktopApp)"

text \<open>
  Lines 1 to 14, run once: the module is evaluated only the first time; later
  evaluation requests leave the page as it is.
\<close>

definition eval_main :: "page \<Rightarrow> page" where
  "eval_main pg =
     (if import_promise pg \<noteq> None then pg
      else let mobile = is_mobile (user_agent pg)
           in pg\<lparr>import_request := Some (root_view_for mobile), import_promise := Some Pending\<rparr>)"

text \<open>Lines 14 to 19: the fulfilment callback, for the module's default export \<open>App\<close>.\<close>

definition then_callback :: "view_module \<Rightarrow> page \<Rightarrow> page" where
  "then_callback App pg =
     (let a0 = create_app App;
          a1 = app_use a0 (app_router (base_url pg));
          (a2, d) = app_mount a1 ''#app'' (page_dom pg)
      in pg\<lparr>app := Some a2, page_dom := d\<rparr>)"

section \<open>The event loop and the loader\<close>

fun page_step :: "page \<Rightarrow> event \<Rightarrow> page" where
  "page_step pg EvaluateMain = eval_main pg"
| "page_step pg LoaderFulfils =
     (case (import_promise pg, import_request pg) of
        (Some Pending, Some m) \<Rightarrow> pg\<lparr>import_promise := Some (Fulfilled m), reaction_queued := True\<rparr>
      | _ \<Rightarrow> pg)"
| "page_step pg (LoaderRejects e) =
     (case import_promise pg of
        Some Pending \<Rightarrow> pg\<lparr>import_promise := Some (Rejected e), unhandled := unhandled pg @ [e]\<rparr>
      | _ \<Rightarrow> pg)"
| "page_step pg RunMicrotask =
     (if \<not> reaction_queued pg then pg
      else case import_promise pg of
             Some (Fulfilled m) \<Rightarrow> then_callback m (pg\<lparr>reaction_queued := False\<rparr>)
           | _ \<Rightarrow> pg\<lparr>reaction_queued := False\<rparr>)"

fun run :: "page \<Rightarrow> event list \<Rightarrow> page" where
  "run pg [] = pg"
| "run pg (e # es) = run (page_step pg e) es"

inductive reachable :: "page \<Rightarrow> bool" where
  start: "reachable (init_page ua base ids)"
| step: "reachable pg \<Longrightarrow> reachable (page_step pg e)"

section \<open>The invariant\<close>

definition selected_view :: "page \<Rightarrow> view_module" where
  "selected_view pg = root_view_for (is_mobile (user_agent pg))"

definition boot_inv :: "page \<Rightarrow> bool" where
  "boot_inv pg \<longleftrightarrow>
     (import_promise pg = None \<longleftrightarrow> import_request pg = None) \<and>
     (\<forall>m. import_request pg = Some m \<longrightarrow> m = selected_view pg) \<and>
     (\<forall>m. import_promise pg = Some (Fulfilled m) \<longrightarrow> import_request pg = Some m) \<and>
     (reaction_queued pg \<longrightarrow> app pg = None \<and> (\<exists>m. import_promise pg = Some (Fulfilled m))) \<and>
     (\<forall>a. app pg = Some a \<longrightarrow>
        import_promise pg = Some (Fulfilled (app_root a)) \<and> \<not> reaction_queued pg \<and>
        app_plugins a = [app_router (base_url pg)]) \<and>
     (\<forall>el v ps. rendered (page_dom pg) el = Some (v, ps) \<longrightarrow>
        el = ''app'' \<and> (\<exists>a. app pg = Some a \<and> app_root a = v \<and> app_plugins a = ps \<and> app_mounted a)) \<and>
     (app pg = None \<longrightarrow> rendered (page_dom pg) = Map.empty) \<and>
     unhandled pg = (case import_promise pg of Some (Rejected e) \<Rightarrow> [e] | _ \<Rightarrow> [])"

lemma boot_inv_init: "boot_inv (init_page ua base ids)"
  by (simp add: boot_inv_def init_page_def)

lemma then_callback_eq:
  "then_callback m pg =
     pg\<lparr>app := Some (if ''app'' \<in> set (element_ids (page_dom pg))
                    then \<lparr>app_root = m, app_plugins = [app_router (base_url pg)], app_mounted = True, app_container = Some ''app''\<rparr>
                    else \<lparr>app_root = m, app_plugins = [app_router (base_url pg)], app_mounted = False, app_container = None\<rparr>),
        page_dom := (if ''app'' \<in> set (element_ids (page_dom pg))
                      then (page_dom pg)\<lparr>rendered := (rendered (page_dom pg))(''app'' \<mapsto> (m, [app_router (base_url pg)]))\<rparr>
                      else page_dom pg)\<rparr>"
  by (simp add: then_callback_def app_use_create app_mount_fresh)

lemma boot_inv_eval_main: "boot_inv pg \<Longrightarrow> boot_inv (page_step pg EvaluateMain)"
  by (auto simp: boot_inv_def eval_main_def selected_view_def)

lemma boot_inv_fulfils: "boot_inv pg \<Longrightarrow> boot_inv (page_step pg LoaderFulfils)"
  by (auto simp: boot_inv_def selected_view_def split: option.splits import_state.splits)

lemma boot_inv_rejects: "boot_inv pg \<Longrightarrow> boot_inv (page_step pg (LoaderRejects e))"
  by (auto simp: boot_inv_def selected_view_def split: option.splits import_state.splits)

lemma boot_inv_microtask: "boot_inv pg \<Longrightarrow> boot_inv (page_step pg RunMicrotask)"
  by (auto simp: boot_inv_def selected_view_def then_callback_eq split: option.splits import_state.splits)

lemma boot_inv_step:
  assumes "boot_inv pg"
  shows "boot_inv (page_step pg e)"
  using assms
  by (cases e)
     (simp_all del: page_step.simps
       add: boot_inv_eval_main boot_inv_fulfils boot_inv_rejects boot_inv_microtask)

lemma reachable_boot_inv: "reachable pg \<Longrightarrow> boot_inv pg"
  by (induction rule: reachable.induct) (auto intro: boot_inv_init boot_inv_step)

lemma reachable_run: "reachable pg \<Longrightarrow> reachable (run pg es)"
  by (induction es arbitrary: pg) (auto intro: reachable.step)

text \<open>
  Once the application exists, and once the import has been rejected, the page is
  quiescent: the promise cannot settle again and no reaction is queued, so every event
  leaves the page as it is.
\<close>

lemma app_quiescent_step: "boot_inv pg \<Longrightarrow> app pg = Some a \<Longrightarrow> page_step pg e = pg"
  by (cases e) (auto simp: boot_inv_def eval_main_def split: option.splits import_state.splits)

lemma rejected_quiescent_step:
  "boot_inv pg \<Longrightarrow> import_promise pg = Some (Rejected err) \<Longrightarrow> page_step pg e = pg"
  by (cases e) (auto simp: boot_inv_def eval_main_def split: option.splits import_state.splits)

lemma run_fixpoint: "(\<And>e. page_step pg e = pg) \<Longrightarrow> run pg es = pg"
  by (induction es) auto

lemmas boot_facts = eval_main_def then_callback_eq init_page_def

section \<open>Properties of the bootstrap\<close>

text \<open>
  C13. No premature mount: in every reachable state, whatever is rendered into an
  element is the module the dynamic import fulfilled with, so mounting never happens
  before the root view's resolution completes.
\<close>

theorem no_mount_before_resolution:
  assumes "reachable pg" and "rendered (page_dom pg) el = Some (v, ps)"
  shows "import_promise pg = Some (Fulfilled v)"
  using reachable_boot_inv [OF assms(1)] assms(2) by (auto simp: boot_inv_def)

theorem no_mount_before_resolution_witness:
  "import_promise (run (init_page ''Android'' ''/'' [''app'']) [EvaluateMain, LoaderFulfils, RunMicrotask]) =
   Some (Fulfilled MobileApp)"
proof -
  have r: "reachable (run (init_page ''Android'' ''/'' [''app'']) [EvaluateMain, LoaderFulfils, RunMicrotask])"
    by (rule reachable_run) (rule reachable.start)
  have m: "is_mobile ''Android''" by code_simp
  have h: "rendered (page_dom (run (init_page ''Android'' ''/'' [''app'']) [EvaluateMain, LoaderFulfils, RunMicrotask])) ''app'' =
      Some (MobileApp, [app_router ''/''])"
    using m by (simp add: boot_facts root_view_for_def)
  show ?thesis by (rule no_mount_before_resolution [OF r h])
qed

text \<open>
  C14. What is mounted is the root view the classifier selects (\<open>src/main.js\<close>
  lines 10 to 12: the mobile view when the user-agent test is true, the desktop view
  otherwise), in the host element \<open>#app\<close>, with the shared router (the one routing table of the router module)
  as its only plugin.
\<close>

theorem mounted_view_is_selected:
  assumes "reachable pg" and "rendered (page_dom pg) el = Some (v, ps)"
  shows "el = ''app'' \<and> v = (if is_mobile (user_agent pg) then MobileApp else DesktopApp) \<and>
         ps = [app_router (base_url pg)]"
  using reachable_boot_inv [OF assms(1)] assms(2)
  by (auto simp: boot_inv_def selected_view_def root_view_for_def)

theorem mounted_view_is_selected_witness:
  "reachable (run (init_page ''Mozilla/5.0 (X11; Linux x86_64)'' ''/'' [''app'']) [EvaluateMain, LoaderFulfils, RunMicrotask]) \<and>
   rendered (page_dom (run (init_page ''Mozilla/5.0 (X11; Linux x86_64)'' ''/'' [''app'']) [EvaluateMain, LoaderFulfils, RunMicrotask])) ''app'' =
     Some (DesktopApp, [app_router ''/'']) \<and>
   \<not> is_mobile ''Mozilla/5.0 (X11; Linux x86_64)''"
proof -
  let ?pg = "run (init_page ''Mozilla/5.0 (X11; Linux x86_64)'' ''/'' [''app'']) [EvaluateMain, LoaderFulfils, RunMicrotask]"
  have r: "reachable ?pg" by (rule reachable_run) (rule reachable.start)
  have m: "\<not> is_mobile ''Mozilla/5.0 (X11; Linux x86_64)''" by code_simp
  have h: "rendered (page_dom ?pg) ''app'' = Some (DesktopApp, [app_router ''/''])"
    using m by (simp add: boot_facts root_view_for_def)
  have "DesktopApp = (if is_mobile (user_agent ?pg) then MobileApp else DesktopApp)"
    using mounted_view_is_selected [OF r h] by blast
  then have "\<not> is_mobile ''Mozilla/5.0 (X11; Linux x86_64)''" by (simp add: boot_facts split: if_splits)
  with r h show ?thesis by blast
qed

text \<open>
  C15. Exactly one application instance per page lifetime: once the callback has
  created the application, no later event (a second evaluation, another settlement of
  the loader, another microtask) creates, replaces or remounts one; the page does not
  change at all.
\<close>

theorem app_created_once:
  assumes "reachable pg" and "app pg = Some a"
  shows "run pg es = pg"
  using app_quiescent_step [OF reachable_boot_inv [OF assms(1)] assms(2)] by (rule run_fixpoint)

theorem app_created_once_witness:
  "run (run (init_page ''iPhone'' ''/'' [''app'']) [EvaluateMain, LoaderFulfils, RunMicrotask])
       [EvaluateMain, LoaderFulfils, RunMicrotask, LoaderRejects (LoadError ''late'')] =
   run (init_page ''iPhone'' ''/'' [''app'']) [EvaluateMain, LoaderFulfils, RunMicrotask]"
proof -
  let ?pg = "run (init_page ''iPhone'' ''/'' [''app'']) [EvaluateMain, LoaderFulfils, RunMicrotask]"
  have r: "reachable ?pg" by (rule reachable_run) (rule reachable.start)
  have h: "app ?pg = Some \<lparr>app_root = root_view_for (is_mobile ''iPhone''), app_plugins = [app_router ''/''],
      app_mounted = True, app_container = Some ''app''\<rparr>"
    by (simp add: boot_facts)
  show ?thesis by (rule app_created_once [OF r h])
qed

text \<open>
  C16. A failed root-view load never mounts (scenario D): once the import is rejected,
  under every later sequence of events no application exists, nothing is rendered, and
  the failure is reported exactly once as an unhandled rejection.
\<close>

theorem rejected_import_never_mounts:
  assumes "reachable pg" and "import_promise pg = Some (Rejected err)"
  shows "app (run pg es) = None \<and> rendered (page_dom (run pg es)) = Map.empty \<and> unhandled (run pg es) = [err]"
proof -
  have inv: "boot_inv pg" by (rule reachable_boot_inv [OF assms(1)])
  have "run pg es = pg"
    using rejected_quiescent_step [OF inv assms(2)] by (rule run_fixpoint)
  with inv assms(2) show ?thesis by (auto simp: boot_inv_def)
qed

theorem rejected_import_never_mounts_witness:
  "app (run (run (init_page ''Android'' ''/'' [''app'']) [EvaluateMain, LoaderRejects (LoadError ''chunk'')])
          [LoaderFulfils, RunMicrotask]) = None"
proof -
  let ?pg = "run (init_page ''Android'' ''/'' [''app'']) [EvaluateMain, LoaderRejects (LoadError ''chunk'')]"
  have r: "reachable ?pg" by (rule reachable_run) (rule reachable.start)
  have h: "import_promise ?pg = Some (Rejected (LoadError ''chunk''))"
    by (simp add: init_page_def eval_main_def)
  from rejected_import_never_mounts [OF r h] show ?thesis by blast
qed

text \<open>
  C17. Progress: when the page has the host element and the loader fulfils the import,
  evaluation, fulfilment and the reaction's microtask mount the selected root view with
  the shared router in \<open>#app\<close>, and no rejection is reported.
\<close>

theorem boot_mounts_selected_view:
  assumes "''app'' \<in> set ids"
  shows "rendered (page_dom (run (init_page ua base ids) [EvaluateMain, LoaderFulfils, RunMicrotask])) =
           [''app'' \<mapsto> (root_view_for (is_mobile ua), [app_router base])] \<and>
         unhandled (run (init_page ua base ids) [EvaluateMain, LoaderFulfils, RunMicrotask]) = []"
  using assms by (simp add: boot_facts)

theorem boot_mounts_selected_view_witness:
  "rendered (page_dom (run (init_page ''iPad'' ''/'' [''nav'', ''app'']) [EvaluateMain, LoaderFulfils, RunMicrotask])) =
     [''app'' \<mapsto> (root_view_for (is_mobile ''iPad''), [app_router ''/''])]"
proof -
  have h: "''app'' \<in> set [''nav'', ''app'']" by simp
  from boot_mounts_selected_view [OF h] show ?thesis by blast
qed

text \<open>
  C18. Without a host element the bootstrap fails silently: the application is created
  and the router installed, but \<open>mount\<close> finds no \<open>#app\<close>, renders nothing and
  raises nothing, so no error or rejection is reported either.
\<close>

theorem missing_host_no_mount:
  assumes "''app'' \<notin> set ids"
  shows "rendered (page_dom (run (init_page ua base ids) [EvaluateMain, LoaderFulfils, RunMicrotask])) = Map.empty \<and>
         unhandled (run (init_page ua base ids) [EvaluateMain, LoaderFulfils, RunMicrotask]) = [] \<and>
         (\<exists>a. app (run (init_page ua base ids) [EvaluateMain, LoaderFulfils, RunMicrotask]) = Some a \<and>
              \<not> app_mounted a)"
  using assms by (simp add: boot_facts)

theorem missing_host_no_mount_witness:
  "rendered (page_dom (run (init_page ''Android'' ''/'' [''root'']) [EvaluateMain, LoaderFulfils, RunMicrotask])) = Map.empty"
proof -
  have h: "''app'' \<notin> set [''root'']" by simp
  from missing_host_no_mount [OF h] show ?thesis by blast
qed

end
