(* ===== verification/Module_Resolution.thy ===== *)
theory Module_Resolution
  imports Vue_Runtime
begin

text \<open>
  The static imports of the three modules and how the bundler resolves them: a bare
  specifier (\<open>vue\<close>, \<open>vue-router\<close>) names a package; \<open>@/\<close> is the project's alias
  for \<open>src/\<close>; a specifier starting with \<open>./\<close> or \<open>../\<close> is relative to the
  importing module's directory. Resolution normalizes the path: empty and \<open>.\<close>
  segments vanish and \<open>..\<close> removes the previous segment (never above the root).
  A module is linked when every static import resolves to a package or to a file of the
  repository; otherwise linking fails and the module body never runs.

  The JavaScript files of the repository are known exactly (the three of \<open>src/\<close>);
  the \<open>.vue\<close> files are not in the sources, so the set of files is a parameter that
  contains at least the three JavaScript files and no other JavaScript file.
\<close>

section \<open>Paths\<close>

fun split_on_slash :: "js_string \<Rightarrow> js_string list" where
  "split_on_slash [] = [[]]"
| "split_on_slash (c # cs) =
     (let rest = split_on_slash cs
      in if c = CHR ''/'' then [] # rest else (c # hd rest) # tl rest)"

fun join_slash :: "js_string list \<Rightarrow> js_string" where
  "join_slash [] = []"
| "join_slash [s] = s"
| "join_slash (s # ss) = s @ CHR ''/'' # join_slash ss"

fun normalize_segments :: "js_string list \<Rightarrow> js_string list \<Rightarrow> js_string list" where
  "normalize_segments acc [] = acc"
| "normalize_segments acc (seg # segs) =
     (if seg = [] \<or> seg = ''.'' then normalize_segments acc segs
      else if seg = ''..'' then normalize_segments (butlast acc) segs
      else normalize_segments (acc @ [seg]) segs)"

definition normalize_path :: "js_string \<Rightarrow> js_string" where
  "normalize_path p = join_slash (normalize_segments [] (split_on_slash p))"

definition dirname :: "js_string \<Rightarrow> js_string" where
  "dirname p = join_slash (butlast (split_on_slash p))"

section \<open>Specifiers\<close>

datatype resolved = Package js_string | Local js_string

definition resolve_specifier :: "js_string \<Rightarrow> js_string \<Rightarrow> resolved" where
  "resolve_specifier importer spec =
     (if prefix ''@/'' spec then Local (normalize_path (''src/'' @ drop 2 spec))
      else if prefix ''./'' spec \<or> prefix ''../'' spec
      then Local (normalize_path (dirname importer @ CHR ''/'' # spec))
      else Package spec)"

section \<open>The modules and their static imports\<close>

definition repo_js_files :: "js_string list" where
  "repo_js_files = [''src/main.js'', ''src/desktop/router/index.js'', ''src/desktop/components/js/main.js'']"

text \<open>The static \<open>import\<close> declarations of each module, in source order.\<close>

definition main_imports :: "js_string list" where
  "main_imports = [''vue'', ''@/desktop/router/index.js'']"

definition router_imports :: "js_string list" where
  "router_imports =
     [''vue-router'', ''@/desktop/components/home.vue'', ''@/desktop/components/about.vue'',
      ''@/desktop/components/books.vue'']"

definition secondary_imports :: "js_string list" where
  "secondary_imports = [''vue'', ''./desktop/app.vue'', ''./desktop/router/index.js'']"

definition static_imports :: "js_string \<Rightarrow> js_string list" where
  "static_imports p =
     (if p = ''src/main.js'' then main_imports
      else if p = ''src/desktop/router/index.js'' then router_imports
      else if p = ''src/desktop/components/js/main.js'' then secondary_imports
      else [])"

text \<open>
  A repository's files are consistent with the sources when its JavaScript files are
  exactly the three known ones.
\<close>

definition is_js :: "js_string \<Rightarrow> bool" where
  "is_js p \<longleftrightarrow> suffix ''.js'' p"

definition consistent_files :: "js_string set \<Rightarrow> bool" where
  "consistent_files fs \<longleftrightarrow> {p \<in> fs. is_js p} = set repo_js_files"

definition resolves_in :: "js_string set \<Rightarrow> resolved \<Rightarrow> bool" where
  "resolves_in fs r = (case r of Package _ \<Rightarrow> True | Local p \<Rightarrow> p \<in> fs)"

text \<open>Linking: the first static import that resolves to no file is the error.\<close>

definition link_module :: "js_string set \<Rightarrow> js_string \<Rightarrow> js_string option" where
  "link_module fs p =
     find (\<lambda>spec. \<not> resolves_in fs (resolve_specifier p spec)) (static_imports p)"

section \<open>The secondary entry point\<close>

text \<open>
  \<open>src/desktop/components/js/main.js\<close>, line 5, if its module were linked: the
  desktop root view mounted synchronously with the router, in one statement.
\<close>

definition desktop_entry :: "router \<Rightarrow> dom \<Rightarrow> vue_app \<times> dom" where
  "desktop_entry rt d = app_mount (app_use (create_app DesktopApp) rt) ''#app'' d"

definition run_desktop_entry :: "js_string set \<Rightarrow> router \<Rightarrow> dom \<Rightarrow> (js_string + (vue_app \<times> dom))" where
  "run_desktop_entry fs rt d =
     (case link_module fs ''src/desktop/components/js/main.js'' of
        Some spec \<Rightarrow> Inl spec
      | None \<Rightarrow> Inr (desktop_entry rt d))"

section \<open>Module evaluation\<close>

text \<open>
  Evaluation of a linked module graph (ECMA-262 InnerModuleEvaluation, for an acyclic
  graph): a module is evaluated once; before its body run, its static imports are
  evaluated in source order. Packages are leaves (their own graphs are not modelled);
  the \<open>.vue\<close> modules, not in the sources, are taken to have no static imports of the
  repository. The recursion carries fuel for the depth of the graph, and running out
  of it is the error \<open>Exhausted\<close>; a local module that is not a file of the repository
  is the link error \<open>Unresolved\<close>, and then no module is evaluated.
\<close>

datatype eval_error = Unresolved js_string | Exhausted

fun eval_module :: "js_string set \<Rightarrow> nat \<Rightarrow> resolved \<Rightarrow> resolved list \<Rightarrow> eval_error + resolved list" where
  "eval_module fs 0 m done = Inl Exhausted"
| "eval_module fs (Suc n) m done =
     (if m \<in> set done then Inr done
      else case m of
        Package _ \<Rightarrow> Inr (done @ [m])
      | Local p \<Rightarrow>
          if p \<notin> fs then Inl (Unresolved p)
          else case fold (\<lambda>spec acc. case acc of
                             Inl e \<Rightarrow> Inl e
                           | Inr d \<Rightarrow> eval_module fs n (resolve_specifier p spec) d)
                      (static_imports p) (Inr done) of
                 Inl e \<Rightarrow> Inl e
               | Inr d \<Rightarrow> Inr (d @ [m]))"

lemma consistent_repo_files: "consistent_files (set repo_js_files)"
proof -
  have "\<forall>p \<in> set repo_js_files. is_js p"
    by (simp add: repo_js_files_def is_js_def suffix_to_prefix)
  then show ?thesis unfolding consistent_files_def by blast
qed

lemma consistent_files_insert:
  "consistent_files fs \<Longrightarrow> \<not> is_js f \<Longrightarrow> consistent_files (insert f fs)"
  unfolding consistent_files_def by blast

section \<open>Evaluation with enough fuel\<close>

lemma fold_imports_mono:
  assumes "\<And>m d r. eval_module fs n m d = Inr r \<Longrightarrow> eval_module fs (Suc n) m d = Inr r"
  shows "fold (\<lambda>spec acc. case acc of Inl e \<Rightarrow> Inl e | Inr d \<Rightarrow> eval_module fs n (resolve_specifier p spec) d) specs acc = Inr r \<Longrightarrow>
         fold (\<lambda>spec acc. case acc of Inl e \<Rightarrow> Inl e | Inr d \<Rightarrow> eval_module fs (Suc n) (resolve_specifier p spec) d) specs acc = Inr r"
proof (induction specs arbitrary: acc)
  case Nil
  then show ?case by simp
next
  case (Cons spec specs)
  show ?case
  proof (cases acc)
    case (Inl e)
    have "fold (\<lambda>spec acc. case acc of Inl e \<Rightarrow> Inl e | Inr d \<Rightarrow> eval_module fs n (resolve_specifier p spec) d) specs (Inl e) = Inl e" for n
      by (induction specs) simp_all
    with Cons.prems Inl show ?thesis by simp
  next
    case (Inr d)
    show ?thesis
    proof (cases "eval_module fs n (resolve_specifier p spec) d")
      case (Inl e)
      have "fold (\<lambda>spec acc. case acc of Inl e \<Rightarrow> Inl e | Inr d \<Rightarrow> eval_module fs n (resolve_specifier p spec) d) specs (Inl e) = Inl e"
        by (induction specs) simp_all
      with Cons.prems Inr Inl show ?thesis by simp
    next
      case (Inr d')
      with Cons.prems \<open>acc = Inr d\<close> Cons.IH [of "Inr d'"] assms show ?thesis by simp
    qed
  qed
qed

lemma eval_module_mono: "eval_module fs n m d = Inr r \<Longrightarrow> eval_module fs (Suc n) m d = Inr r"
proof (induction n arbitrary: m d r)
  case 0
  then show ?case by simp
next
  case (Suc n)
  show ?case
  proof (cases "m \<in> set d")
    case True
    with Suc.prems show ?thesis by simp
  next
    case nin: False
    show ?thesis
    proof (cases m)
      case (Package x)
      with nin Suc.prems show ?thesis by simp
    next
      case (Local p)
      show ?thesis
      proof (cases "p \<in> fs")
        case False
        with nin Local Suc.prems show ?thesis by simp
      next
        case True
        obtain d' where d': "fold (\<lambda>spec acc. case acc of Inl e \<Rightarrow> Inl e
              | Inr d \<Rightarrow> eval_module fs n (resolve_specifier p spec) d) (static_imports p) (Inr d) = Inr d'"
          and r: "r = d' @ [m]"
          using Suc.prems nin Local True by (auto split: sum.splits)
        have "fold (\<lambda>spec acc. case acc of Inl e \<Rightarrow> Inl e
              | Inr d \<Rightarrow> eval_module fs (Suc n) (resolve_specifier p spec) d) (static_imports p) (Inr d) = Inr d'"
          by (rule fold_imports_mono [OF Suc.IH d'])
        with nin Local True r show ?thesis by simp
      qed
    qed
  qed
qed

lemma eval_module_mono_le:
  assumes "n \<le> k" and "eval_module fs n m d = Inr r"
  shows "eval_module fs k m d = Inr r"
  using assms(1)
proof (induction k rule: dec_induct)
  case base
  show ?case by (rule assms(2))
next
  case (step k)
  then show ?case using eval_module_mono by blast
qed

lemma resolve_vue: "resolve_specifier ''src/main.js'' ''vue'' = Package ''vue''"
  by code_simp
lemma resolve_router_module: "resolve_specifier ''src/main.js'' ''@/desktop/router/index.js'' = Local ''src/desktop/router/index.js''"
  by code_simp
lemma resolve_vue_router: "resolve_specifier ''src/desktop/router/index.js'' ''vue-router'' = Package ''vue-router''"
  by code_simp
lemma resolve_home: "resolve_specifier ''src/desktop/router/index.js'' ''@/desktop/components/home.vue'' = Local ''src/desktop/components/home.vue''"
  by code_simp
lemma resolve_about: "resolve_specifier ''src/desktop/router/index.js'' ''@/desktop/components/about.vue'' = Local ''src/desktop/components/about.vue''"
  by code_simp
lemma resolve_books: "resolve_specifier ''src/desktop/router/index.js'' ''@/desktop/components/books.vue'' = Local ''src/desktop/components/books.vue''"
  by code_simp

lemmas import_resolutions = resolve_vue resolve_router_module resolve_vue_router resolve_home resolve_about resolve_books

lemma consistent_files_repo: "consistent_files fs \<Longrightarrow> set repo_js_files \<subseteq> fs"
  unfolding consistent_files_def by blast

section \<open>Properties of module resolution\<close>

text \<open>
  C20. The secondary entry point never runs: in every repository whose JavaScript
  files are the three of the sources, linking \<open>src/desktop/components/js/main.js\<close>
  fails, because its \<open>./desktop/router/index.js\<close> resolves to
  \<open>src/desktop/components/js/desktop/router/index.js\<close>, which is no file.
\<close>

theorem secondary_entry_never_runs:
  assumes "consistent_files fs"
  shows "\<exists>spec. run_desktop_entry fs rt d = Inl spec"
proof -
  let ?missing = "''src/desktop/components/js/desktop/router/index.js''"
  have res: "resolve_specifier ''src/desktop/components/js/main.js'' ''./desktop/router/index.js'' =
      Local ?missing"
    by code_simp
  have eq: "{p \<in> fs. is_js p} = set repo_js_files"
    using assms by (simp only: consistent_files_def)
  have "?missing \<notin> fs"
  proof
    assume "?missing \<in> fs"
    moreover have "is_js ?missing"
      by (simp add: is_js_def suffix_to_prefix)
    ultimately have "?missing \<in> {p \<in> fs. is_js p}" by (simp only: mem_Collect_eq)
    then have "?missing \<in> set repo_js_files" by (simp only: eq)
    then show False by (simp add: repo_js_files_def)
  qed
  with res have bad: "\<not> resolves_in fs (resolve_specifier ''src/desktop/components/js/main.js'' ''./desktop/router/index.js'')"
    by (simp add: resolves_in_def)
  have imps: "static_imports ''src/desktop/components/js/main.js'' =
      [''vue'', ''./desktop/app.vue'', ''./desktop/router/index.js'']"
    by (simp add: static_imports_def main_imports_def secondary_imports_def)
  have "link_module fs ''src/desktop/components/js/main.js'' \<noteq> None"
    unfolding link_module_def find_None_iff imps using bad by auto
  then show ?thesis by (auto simp: run_desktop_entry_def split: option.splits)
qed

theorem secondary_entry_never_runs_witness:
  "\<exists>spec. run_desktop_entry (insert ''src/desktop/app.vue'' (set repo_js_files)) (app_router ''/'')
      \<lparr>element_ids = [''app''], rendered = Map.empty\<rparr> = Inl spec"
proof -
  have "\<not> is_js ''src/desktop/app.vue''"
    by (simp add: is_js_def suffix_to_prefix)
  then have h: "consistent_files (insert ''src/desktop/app.vue'' (set repo_js_files))"
    by (rule consistent_files_insert [OF consistent_repo_files])
  show ?thesis by (rule secondary_entry_never_runs [OF h])
qed

text \<open>
  C21. The main entry point links in every such repository: \<open>vue\<close> is a package and
  \<open>@/desktop/router/index.js\<close> resolves to the router module
  \<open>src/desktop/router/index.js\<close>.
\<close>

theorem main_module_links:
  "consistent_files fs \<Longrightarrow> link_module fs ''src/main.js'' = None"
proof -
  assume c: "consistent_files fs"
  have "''src/desktop/router/index.js'' \<in> fs"
    using c by (auto simp: consistent_files_def repo_js_files_def)
  moreover have "resolve_specifier ''src/main.js'' ''@/desktop/router/index.js'' = Local ''src/desktop/router/index.js''"
    by code_simp
  moreover have "resolve_specifier ''src/main.js'' ''vue'' = Package ''vue''"
    by code_simp
  ultimately show ?thesis
    by (simp add: link_module_def static_imports_def main_imports_def secondary_imports_def resolves_in_def)
qed

theorem main_module_links_witness: "link_module (set repo_js_files) ''src/main.js'' = None"
  by (rule main_module_links [OF consistent_repo_files])

text \<open>
  C22. The modules of \<open>src/main.js\<close> are evaluated in dependency order: in every
  repository whose JavaScript files are the three of the sources and which has the
  three page components, evaluating the module graph of \<open>src/main.js\<close> runs
  \<open>vue\<close>, \<open>vue-router\<close>, the three pages, the router module and only then
  \<open>src/main.js\<close>; so the router object exists (\<open>createRouter\<close> and
  \<open>createWebHistory\<close> have run) before \<open>main.js\<close> classifies the user agent. Any
  fuel from 3, the depth of the graph, gives this result.
\<close>

theorem main_evaluation_order:
  assumes "consistent_files fs"
    and "{''src/desktop/components/home.vue'', ''src/desktop/components/about.vue'', ''src/desktop/components/books.vue''} \<subseteq> fs"
    and "3 \<le> n"
  shows "eval_module fs n (Local ''src/main.js'') [] =
    Inr [Package ''vue'', Package ''vue-router'', Local ''src/desktop/components/home.vue'',
         Local ''src/desktop/components/about.vue'', Local ''src/desktop/components/books.vue'',
         Local ''src/desktop/router/index.js'', Local ''src/main.js'']"
proof -
  have "''src/main.js'' \<in> fs" and "''src/desktop/router/index.js'' \<in> fs"
    using consistent_files_repo [OF assms(1)] by (auto simp: repo_js_files_def)
  then have "eval_module fs 3 (Local ''src/main.js'') [] =
    Inr [Package ''vue'', Package ''vue-router'', Local ''src/desktop/components/home.vue'',
         Local ''src/desktop/components/about.vue'', Local ''src/desktop/components/books.vue'',
         Local ''src/desktop/router/index.js'', Local ''src/main.js'']"
    using assms(2)
    by (simp add: numeral_3_eq_3 static_imports_def main_imports_def router_imports_def import_resolutions)
  then show ?thesis by (rule eval_module_mono_le [OF assms(3)])
qed

theorem main_evaluation_order_witness:
  "eval_module (insert ''src/desktop/components/home.vue'' (insert ''src/desktop/components/about.vue''
      (insert ''src/desktop/components/books.vue'' (set repo_js_files)))) 3 (Local ''src/main.js'') [] =
    Inr [Package ''vue'', Package ''vue-router'', Local ''src/desktop/components/home.vue'',
         Local ''src/desktop/components/about.vue'', Local ''src/desktop/components/books.vue'',
         Local ''src/desktop/router/index.js'', Local ''src/main.js'']"
proof -
  have v: "\<not> is_js ''src/desktop/components/home.vue''" "\<not> is_js ''src/desktop/components/about.vue''"
      "\<not> is_js ''src/desktop/components/books.vue''"
    by (simp_all add: is_js_def suffix_to_prefix)
  have c: "consistent_files (insert ''src/desktop/components/home.vue'' (insert ''src/desktop/components/about.vue''
      (insert ''src/desktop/components/books.vue'' (set repo_js_files))))"
    by (intro consistent_files_insert consistent_repo_files v)
  have s: "{''src/desktop/components/home.vue'', ''src/desktop/components/about.vue'', ''src/desktop/components/books.vue''}
      \<subseteq> insert ''src/desktop/components/home.vue'' (insert ''src/desktop/components/about.vue''
      (insert ''src/desktop/components/books.vue'' (set repo_js_files)))"
    by blast
  show ?thesis by (rule main_evaluation_order [OF c s order_refl])
qed

text \<open>
  C29. The router module links exactly when the three page components it imports
  exist: \<open>@/desktop/components/home.vue\<close>, \<open>about.vue\<close> and \<open>books.vue\<close>
  resolve under \<open>src/desktop/components/\<close>, and \<open>vue-router\<close> is a package.
\<close>

theorem router_module_links_iff:
  "link_module fs ''src/desktop/router/index.js'' = None \<longleftrightarrow>
     {''src/desktop/components/home.vue'', ''src/desktop/components/about.vue'',
      ''src/desktop/components/books.vue''} \<subseteq> fs"
proof -
  have r: "map (resolve_specifier ''src/desktop/router/index.js'') router_imports =
      [Package ''vue-router'', Local ''src/desktop/components/home.vue'',
       Local ''src/desktop/components/about.vue'', Local ''src/desktop/components/books.vue'']"
    by code_simp
  have "link_module fs ''src/desktop/router/index.js'' = None \<longleftrightarrow>
      (\<forall>r \<in> set (map (resolve_specifier ''src/desktop/router/index.js'') router_imports). resolves_in fs r)"
    by (auto simp: link_module_def static_imports_def find_None_iff)
  also have "\<dots> \<longleftrightarrow> {''src/desktop/components/home.vue'', ''src/desktop/components/about.vue'',
      ''src/desktop/components/books.vue''} \<subseteq> fs"
    unfolding r by (simp add: resolves_in_def)
  finally show ?thesis .
qed

end
