(* ===== verification/Boot_Spec.thy ===== *)
theory Boot_Spec
  imports Bootstrap Module_Resolution
begin

text \<open>
  The bootstrap against the specification's state machine and against the repository's
  files. Section 4.2 of the specification describes startup as a machine with the
  states \<open>Unloaded\<close> and \<open>Mounted\<close> and a terminal \<open>Failed\<close> reached only by the
  unhandled rejection, with no transition back. \<open>phase\<close> reads that state off a page
  of the \<open>Bootstrap\<close> model, \<open>spec_step\<close> is the machine, and every event of a
  reachable page is a step of it or a stutter.

  The dynamic import of \<open>src/main.js\<close> lines 10 to 12 names the root view by the
  specifiers \<open>@/mobile/app.vue\<close> and \<open>@/desktop/app.vue\<close>; the loader fulfils the
  import when the specifier resolves to a file of the repository and rejects it
  otherwise. \<open>boot_with_files\<close> runs module evaluation, the loader's answer for the
  given files and the reaction's microtask.
\<close>

section \<open>The specification's state machine\<close>

datatype boot_phase = Unloaded | Mounted | Failed

inductive spec_step :: "boot_phase \<Rightarrow> boot_phase \<Rightarrow> bool" where
  load_ok: "spec_step Unloaded Mounted"
| load_fails: "spec_step Unloaded Failed"
| stutter: "spec_step p p"

inductive_cases spec_step_MountedE: "spec_step Mounted q"
inductive_cases spec_step_FailedE: "spec_step Failed q"

definition phase :: "page \<Rightarrow> boot_phase" where
  "phase pg =
     (case app pg of
        Some a \<Rightarrow> if app_mounted a then Mounted else Unloaded
      | None \<Rightarrow> (case import_promise pg of Some (Rejected e) \<Rightarrow> Failed | _ \<Rightarrow> Unloaded))"

section \<open>The dynamic import resolved against the repository's files\<close>

definition view_specifier :: "view_module \<Rightarrow> js_string" where
  "view_specifier v = (if v = MobileApp then ''@/mobile/app.vue'' else ''@/desktop/app.vue'')"

definition loader_event :: "js_string set \<Rightarrow> page \<Rightarrow> event" where
  "loader_event fs pg =
     (case import_request pg of
        None \<Rightarrow> RunMicrotask
      | Some v \<Rightarrow>
          if resolves_in fs (resolve_specifier ''src/main.js'' (view_specifier v)) then LoaderFulfils
          else LoaderRejects (LoadError (view_specifier v)))"

definition boot_with_files :: "js_string set \<Rightarrow> js_string \<Rightarrow> js_string \<Rightarrow> js_string list \<Rightarrow> page" where
  "boot_with_files fs ua base ids =
     (let pg = page_step (init_page ua base ids) EvaluateMain
      in run pg [loader_event fs pg, RunMicrotask])"

section \<open>Lemmas\<close>

lemma boot_inv_app_Some:
  "boot_inv pg \<Longrightarrow> app pg = Some a \<Longrightarrow> import_promise pg = Some (Fulfilled (app_root a))"
  by (simp add: boot_inv_def)

lemma phase_step_inv:
  assumes inv: "boot_inv pg"
  shows "spec_step (phase pg) (phase (page_step pg e))"
proof (cases e)
  case EvaluateMain
  then show ?thesis
    using inv boot_inv_app_Some [OF inv]
    by (auto simp: eval_main_def phase_def intro: spec_step.intros split: option.splits)
next
  case LoaderFulfils
  then show ?thesis
    using inv boot_inv_app_Some [OF inv]
    by (auto simp: phase_def intro: spec_step.intros split: option.splits import_state.splits)
next
  case (LoaderRejects x)
  then show ?thesis
    using inv boot_inv_app_Some [OF inv]
    by (auto simp: phase_def intro: spec_step.intros split: option.splits import_state.splits)
next
  case RunMicrotask
  then show ?thesis
    using inv
    by (auto simp: phase_def boot_inv_def then_callback_eq intro: spec_step.intros
        split: option.splits import_state.splits)
qed

lemma view_specifier_root:
  "view_specifier (root_view_for b) = (if b then ''@/mobile/app.vue'' else ''@/desktop/app.vue'')"
  by (simp add: view_specifier_def root_view_for_def)

lemma resolve_mobile_view: "resolve_specifier ''src/main.js'' ''@/mobile/app.vue'' = Local ''src/mobile/app.vue''"
  by code_simp

lemma resolve_desktop_view: "resolve_specifier ''src/main.js'' ''@/desktop/app.vue'' = Local ''src/desktop/app.vue''"
  by code_simp

lemmas view_resolution = view_specifier_root resolve_mobile_view resolve_desktop_view

section \<open>Properties\<close>

text \<open>
  C30. The bootstrap refines the specification's state machine: from every reachable
  page, every event of the environment or the event loop is a transition of the
  specification (\<open>Unloaded\<close> to \<open>Mounted\<close>, \<open>Unloaded\<close> to \<open>Failed\<close>) or leaves
  the specification's state unchanged; there is no transition back.
\<close>

theorem boot_refines_spec:
  "reachable pg \<Longrightarrow> spec_step (phase pg) (phase (page_step pg e))"
  by (rule phase_step_inv [OF reachable_boot_inv])

theorem boot_refines_spec_witness:
  "spec_step (phase (run (init_page ''Android'' ''/'' [''app'']) [EvaluateMain, LoaderFulfils]))
     (phase (page_step (run (init_page ''Android'' ''/'' [''app'']) [EvaluateMain, LoaderFulfils]) RunMicrotask)) \<and>
   phase (run (init_page ''Android'' ''/'' [''app'']) [EvaluateMain, LoaderFulfils]) = Unloaded \<and>
   phase (page_step (run (init_page ''Android'' ''/'' [''app'']) [EvaluateMain, LoaderFulfils]) RunMicrotask) = Mounted"
proof -
  have r: "reachable (run (init_page ''Android'' ''/'' [''app'']) [EvaluateMain, LoaderFulfils])"
    by (rule reachable_run [OF reachable.start])
  have m: "is_mobile ''Android''" by code_simp
  show ?thesis
    using boot_refines_spec [OF r, of RunMicrotask] m by (simp add: boot_facts phase_def root_view_for_def)
qed

text \<open>
  C31. Startup against the repository's files: with a host element \<open>#app\<close>, the
  page ends mounted when the root view the classifier selects (\<open>src/mobile/app.vue\<close>
  or \<open>src/desktop/app.vue\<close>, the targets of \<open>@/mobile/app.vue\<close> and
  \<open>@/desktop/app.vue\<close>) is a file of the repository, and otherwise ends failed with
  one unhandled rejection naming the specifier.
\<close>

theorem boot_with_files_outcome:
  assumes "''app'' \<in> set ids"
  shows "phase (boot_with_files fs ua base ids) =
           (if (if is_mobile ua then ''src/mobile/app.vue'' else ''src/desktop/app.vue'') \<in> fs
            then Mounted else Failed) \<and>
         unhandled (boot_with_files fs ua base ids) =
           (if (if is_mobile ua then ''src/mobile/app.vue'' else ''src/desktop/app.vue'') \<in> fs
            then [] else [LoadError (if is_mobile ua then ''@/mobile/app.vue'' else ''@/desktop/app.vue'')])"
  using assms
  by (cases "is_mobile ua")
    (simp_all add: boot_with_files_def loader_event_def view_resolution resolves_in_def boot_facts phase_def)

theorem boot_with_files_outcome_witness:
  "''app'' \<in> set [''app''] \<and>
   phase (boot_with_files {''src/desktop/app.vue''} ''Mozilla/5.0 (Linux; Android 10)'' ''/'' [''app'']) = Failed \<and>
   unhandled (boot_with_files {''src/desktop/app.vue''} ''Mozilla/5.0 (Linux; Android 10)'' ''/'' [''app'']) =
     [LoadError ''@/mobile/app.vue'']"
proof -
  have h: "''app'' \<in> set [''app'']" by simp
  have m: "is_mobile ''Mozilla/5.0 (Linux; Android 10)''" by code_simp
  show ?thesis using boot_with_files_outcome [OF h, of "{''src/desktop/app.vue''}" "''Mozilla/5.0 (Linux; Android 10)''" "''/''"] m
    by simp
qed

end
