(* ===== verification/Regex_Loop.thy ===== *)
theory Regex_Loop
  imports JS_Regex "HOL-Library.While_Combinator"
begin

text \<open>
  RegExpBuiltinExec (ECMA-262, 22.2.7.2) written as the loop the standard writes, step
  13: \<open>Repeat, while matchSucceeded is false\<close>: if \<open>lastIndex\<close> is past the length
  of the input the result is \<open>null\<close>; otherwise the matcher runs at \<open>lastIndex\<close> with
  the continuation that accepts; on failure \<open>lastIndex\<close> advances by one code unit
  (AdvanceStringIndex without the \<open>u\<close> flag), on success the loop ends. With neither
  \<open>g\<close> nor \<open>y\<close>, \<open>lastIndex\<close> starts at 0. This is the loop behind
  \<open>RegExp.prototype.test\<close> at \<open>src/main.js\<close> lines 5 to 7.

  The loop is a \<open>while_option\<close> over an explicit state; the lemmas prove that it
  stops (\<open>measure_while_option_Some\<close>, the measure being the indices left to try),
  how many iterations it takes at most, and that it computes \<open>regexp_exec\<close>.
\<close>

datatype exec_state = Searching nat | Matched nat nat | Failed

fun searching :: "exec_state \<Rightarrow> bool" where
  "searching (Searching _) = True"
| "searching _ = False"

definition exec_body :: "regexp \<Rightarrow> js_string \<Rightarrow> exec_state \<Rightarrow> exec_state" where
  "exec_body re s st =
     (case st of
        Searching i \<Rightarrow>
          if length s < i then Failed
          else (case matcher (re_ignore_case re) (re_pattern re) s i Some of
                  None \<Rightarrow> Searching (Suc i)
                | Some e \<Rightarrow> Matched i e)
      | _ \<Rightarrow> st)"

definition exec_loop :: "regexp \<Rightarrow> js_string \<Rightarrow> nat \<Rightarrow> exec_state option" where
  "exec_loop re s i = while_option searching (exec_body re s) (Searching i)"

definition builtin_exec :: "regexp \<Rightarrow> js_string \<Rightarrow> (nat \<times> nat) option" where
  "builtin_exec re s =
     (case exec_loop re s 0 of
        Some (Matched i e) \<Rightarrow> Some (i, e)
      | _ \<Rightarrow> None)"

text \<open>The indices the loop has left to try: it decreases on every iteration.\<close>

fun indices_left :: "js_string \<Rightarrow> exec_state \<Rightarrow> nat" where
  "indices_left s (Searching i) = Suc (Suc (length s) - i)"
| "indices_left s _ = 0"

text \<open>One step of the loop against one call of \<open>exec_from\<close>.\<close>

definition exec_result :: "(nat \<times> nat) option \<Rightarrow> exec_state" where
  "exec_result r = (case r of None \<Rightarrow> Failed | Some (i, e) \<Rightarrow> Matched i e)"

section \<open>The loop and the recursive search\<close>

lemma exec_body_decreases:
  "searching st \<Longrightarrow> indices_left s (exec_body re s st) < indices_left s st"
  by (cases st) (auto simp: exec_body_def split: option.splits)

lemma exec_body_stopped: "\<not> searching st \<Longrightarrow> exec_body re s st = st"
  by (cases st) (simp_all add: exec_body_def)

lemma funpow_exec_body_stopped: "\<not> searching st \<Longrightarrow> (exec_body re s ^^ n) st = st"
  by (induction n) (simp_all add: exec_body_stopped)

lemma exec_loop_exec_from: "exec_loop re s i = Some (exec_result (exec_from re s i))"
proof (induction re s i rule: exec_from.induct)
  case (1 re s i)
  show ?case
  proof (cases "length s < i")
    case True
    then show ?thesis
      by (simp add: exec_loop_def while_option_unfold [of _ _ "Searching i"] exec_body_def
          while_option_unfold [of _ _ Failed] exec_from.simps [of re s i] exec_result_def)
  next
    case False
    show ?thesis
    proof (cases "matcher (re_ignore_case re) (re_pattern re) s i Some")
      case None
      with False "1.IH" show ?thesis
        by (simp add: exec_loop_def while_option_unfold [of _ _ "Searching i"] exec_body_def
            exec_from.simps [of re s i])
    next
      case (Some e)
      with False show ?thesis
        by (simp add: exec_loop_def while_option_unfold [of _ _ "Searching i"] exec_body_def
            while_option_unfold [of _ _ "Matched i e"] exec_from.simps [of re s i] exec_result_def)
    qed
  qed
qed

lemma exec_body_iterations:
  "Suc (length s) - i < n \<Longrightarrow> \<not> searching ((exec_body re s ^^ n) (Searching i))"
proof (induction n arbitrary: i)
  case 0
  then show ?case by simp
next
  case (Suc n)
  show ?case
  proof (cases "length s < i")
    case True
    then have "exec_body re s (Searching i) = Failed" by (simp add: exec_body_def)
    then show ?thesis by (simp add: funpow_Suc_right funpow_exec_body_stopped del: funpow.simps)
  next
    case False
    show ?thesis
    proof (cases "matcher (re_ignore_case re) (re_pattern re) s i Some")
      case None
      then have "exec_body re s (Searching i) = Searching (Suc i)"
        using False by (simp add: exec_body_def)
      moreover have "Suc (length s) - Suc i < n" using Suc.prems False by arith
      ultimately show ?thesis
        using Suc.IH by (simp add: funpow_Suc_right del: funpow.simps)
    next
      case (Some e)
      then have "exec_body re s (Searching i) = Matched i e"
        using False by (simp add: exec_body_def)
      then show ?thesis by (simp add: funpow_Suc_right funpow_exec_body_stopped del: funpow.simps)
    qed
  qed
qed

lemma funpow_stopped_eq:
  assumes "\<not> searching ((exec_body re s ^^ k) st)" and "\<not> searching ((exec_body re s ^^ n) st)"
  shows "(exec_body re s ^^ k) st = (exec_body re s ^^ n) st"
proof (cases "k \<le> n")
  case True
  then have "(exec_body re s ^^ n) st = (exec_body re s ^^ (n - k)) ((exec_body re s ^^ k) st)"
    by (metis le_add_diff_inverse2 funpow_add comp_apply)
  with assms(1) show ?thesis by (simp add: funpow_exec_body_stopped)
next
  case False
  then have "(exec_body re s ^^ k) st = (exec_body re s ^^ (k - n)) ((exec_body re s ^^ n) st)"
    by (metis nat_le_linear le_add_diff_inverse2 funpow_add comp_apply)
  with assms(2) show ?thesis by (simp add: funpow_exec_body_stopped)
qed

lemma exec_loop_stops: "\<exists>st. exec_loop re s i = Some st \<and> \<not> searching st"
proof -
  have "\<exists>t. while_option searching (exec_body re s) (Searching i) = Some t"
    by (rule measure_while_option_Some [where f = "indices_left s" and P = "\<lambda>_. True"])
      (simp_all add: exec_body_decreases)
  then show ?thesis by (auto simp: exec_loop_def dest: while_option_stop)
qed

section \<open>Properties of the search loop\<close>

text \<open>
  C23. The search loop of RegExpBuiltinExec terminates from every start index: it
  returns a state that is no longer searching, a match or a failure.
\<close>

theorem exec_loop_terminates: "\<exists>st. exec_loop re s i = Some st \<and> \<not> searching st"
  by (rule exec_loop_stops)

text \<open>
  C24. The loop as ECMA-262 writes it computes what the recursive search
  \<open>regexp_exec\<close> computes, on every pattern and input.
\<close>

theorem builtin_exec_eq_regexp_exec: "builtin_exec re s = regexp_exec re s"
  by (simp add: builtin_exec_def regexp_exec_def exec_loop_exec_from exec_result_def
      split: option.splits prod.splits)

text \<open>
  C25. The loop's result is reached within \<open>length s + 2\<close> iterations: at most
  \<open>length s + 1\<close> calls of the matcher and the final check of \<open>lastIndex\<close>.
\<close>

theorem exec_loop_iterations:
  "exec_loop re s 0 = Some ((exec_body re s ^^ (length s + 2)) (Searching 0))"
proof -
  obtain t where t: "exec_loop re s 0 = Some t"
    using exec_loop_stops [of re s 0] by blast
  then obtain k where k: "t = (exec_body re s ^^ k) (Searching 0)" and stop: "\<not> searching t"
    unfolding exec_loop_def by (blast dest: while_option_stop2)
  have "\<not> searching ((exec_body re s ^^ (length s + 2)) (Searching 0))"
    by (rule exec_body_iterations) simp
  with k stop have "t = (exec_body re s ^^ (length s + 2)) (Searching 0)"
    using funpow_stopped_eq by blast
  with t show ?thesis by simp
qed

end
