(* ===== verification/Router_Install.thy ===== *)
theory Router_Install
  imports Bootstrap
begin

text \<open>
  What \<open>app.use(router)\<close> (\<open>src/main.js\<close> line 17) does to the router itself.
  Vue's \<open>use\<close> calls the plugin's \<open>install\<close>; vue-router's \<open>install\<close> registers
  its components and, in a browser, when the router has not started yet and its current
  route is still the start location, marks it started and pushes the history's current
  location. That navigation completes asynchronously, after the callback has returned
  and the application is mounted; it then sets the router's current route to the route
  the location resolves to (\<open>current_route\<close>).

  The history that \<open>createWebHistory(BASE_URL)\<close> creates
  (\<open>src/desktop/router/index.js\<close> line 29) listens to \<open>popstate\<close> (back and forward
  buttons): it records the new location and passes it to the router's listener, which
  the router sets up only once its first navigation has completed; the router then
  navigates to that location, a newer navigation superseding one still in flight.
  When the first navigation completes, the router replaces the history entry with the
  location it navigated to.

  The router object is a module singleton whose state lives beside the page:
  \<open>router_state\<close> holds the browser's pathname, whether the router has started, the
  navigation in flight and the current route (\<open>None\<close> for the start location,
  \<open>Some None\<close> for a location no route matches). \<open>sys_step\<close> composes the page's
  step with it: the microtask that runs the \<open>then\<close> callback also runs
  \<open>router_install\<close> (line 17 is part of that callback), \<open>PopState\<close> is a history
  event and \<open>NavigationDone\<close> the completion of the navigation in flight.
\<close>

section \<open>The router's state, install and the initial navigation\<close>

record router_state =
  rs_location :: js_string
  rs_started :: bool
  rs_pending :: "js_string option"
  rs_current :: "route_record option option"

definition router_install :: "router_state \<Rightarrow> router_state" where
  "router_install rs =
     (if \<not> rs_started rs \<and> rs_current rs = None
      then rs\<lparr>rs_started := True, rs_pending := Some (rs_location rs)\<rparr>
      else rs)"

text \<open>
  \<open>finalizeNavigation\<close>: the current route becomes the route of the navigated location;
  the first navigation (from the start location) also replaces the history entry with
  that location.
\<close>

definition navigation_done :: "router \<Rightarrow> router_state \<Rightarrow> router_state" where
  "navigation_done rt rs =
     (case rs_pending rs of
        None \<Rightarrow> rs
      | Some loc \<Rightarrow>
          rs\<lparr>rs_current := Some (current_route rt loc), rs_pending := None,
             rs_location := (if rs_current rs = None then loc else rs_location rs)\<rparr>)"

text \<open>
  A \<open>popstate\<close> event: the history records the new location; a router whose first
  navigation has completed navigates to it.
\<close>

definition history_popstate :: "router_state \<Rightarrow> js_string \<Rightarrow> router_state" where
  "history_popstate rs loc =
     (if rs_current rs \<noteq> None then rs\<lparr>rs_location := loc, rs_pending := Some loc\<rparr>
      else rs\<lparr>rs_location := loc\<rparr>)"

section \<open>The page and the router together\<close>

record sys =
  sys_page :: page
  sys_router :: router_state

datatype sys_event = PageEvent event | PopState js_string | NavigationDone

text \<open>The guard under which the microtask runs the callback of lines 14 to 19.\<close>

definition callback_runs :: "page \<Rightarrow> bool" where
  "callback_runs pg \<longleftrightarrow>
     reaction_queued pg \<and> (case import_promise pg of Some (Fulfilled _) \<Rightarrow> True | _ \<Rightarrow> False)"

fun sys_step :: "sys \<Rightarrow> sys_event \<Rightarrow> sys" where
  "sys_step s (PageEvent e) =
     \<lparr>sys_page = page_step (sys_page s) e,
      sys_router = (if e = RunMicrotask \<and> callback_runs (sys_page s)
                    then router_install (sys_router s) else sys_router s)\<rparr>"
| "sys_step s (PopState loc) = s\<lparr>sys_router := history_popstate (sys_router s) loc\<rparr>"
| "sys_step s NavigationDone =
     s\<lparr>sys_router := navigation_done (app_router (base_url (sys_page s))) (sys_router s)\<rparr>"

fun run_sys :: "sys \<Rightarrow> sys_event list \<Rightarrow> sys" where
  "run_sys s [] = s"
| "run_sys s (e # es) = run_sys (sys_step s e) es"

definition init_sys :: "js_string \<Rightarrow> js_string \<Rightarrow> js_string list \<Rightarrow> js_string \<Rightarrow> sys" where
  "init_sys ua base ids loc =
     \<lparr>sys_page = init_page ua base ids,
      sys_router = \<lparr>rs_location = loc, rs_started = False, rs_pending = None, rs_current = None\<rparr>\<rparr>"

inductive sys_reachable :: "sys \<Rightarrow> bool" where
  start: "sys_reachable (init_sys ua base ids loc)"
| step: "sys_reachable s \<Longrightarrow> sys_reachable (sys_step s e)"

section \<open>The invariant\<close>

definition nav_inv :: "sys \<Rightarrow> bool" where
  "nav_inv s \<longleftrightarrow>
     reachable (sys_page s) \<and>
     (rs_started (sys_router s) \<longleftrightarrow> app (sys_page s) \<noteq> None) \<and>
     (\<not> rs_started (sys_router s) \<longrightarrow> rs_pending (sys_router s) = None \<and> rs_current (sys_router s) = None) \<and>
     (rs_started (sys_router s) \<and> rs_current (sys_router s) = None \<longrightarrow> rs_pending (sys_router s) \<noteq> None) \<and>
     (rs_started (sys_router s) \<and> rs_pending (sys_router s) = None \<longrightarrow>
        rs_current (sys_router s) = Some (current_route (app_router (base_url (sys_page s))) (rs_location (sys_router s)))) \<and>
     (\<forall>loc. rs_pending (sys_router s) = Some loc \<and> rs_current (sys_router s) \<noteq> None \<longrightarrow>
        rs_location (sys_router s) = loc) \<and>
     (\<forall>r. rs_current (sys_router s) = Some r \<longrightarrow>
        (\<exists>l. r = current_route (app_router (base_url (sys_page s))) l))"

lemma base_url_page_step: "base_url (page_step pg e) = base_url pg"
  by (cases e) (auto simp: eval_main_def then_callback_def Let_def split: option.splits import_state.splits prod.splits)

lemma app_page_step:
  assumes "boot_inv pg"
  shows "app (page_step pg e) \<noteq> None \<longleftrightarrow> app pg \<noteq> None \<or> (e = RunMicrotask \<and> callback_runs pg)"
  using assms
  by (cases e) (auto simp: eval_main_def callback_runs_def boot_inv_def then_callback_eq
      split: option.splits import_state.splits)

lemma nav_inv_init: "nav_inv (init_sys ua base ids loc)"
  by (simp add: nav_inv_def init_sys_def reachable.start) (simp add: init_page_def)

lemma nav_inv_step:
  assumes "nav_inv s"
  shows "nav_inv (sys_step s e)"
proof (cases e)
  case (PageEvent e')
  have r: "reachable (sys_page s)" and inv: "boot_inv (sys_page s)"
    using assms reachable_boot_inv by (auto simp: nav_inv_def)
  show ?thesis
    using assms PageEvent app_page_step [OF inv, of e'] reachable.step [OF r, of e']
      base_url_page_step [of "sys_page s" e']
    by (auto simp: nav_inv_def router_install_def)
next
  case (PopState loc)
  then show ?thesis
    using assms by (auto simp: nav_inv_def history_popstate_def)
next
  case NavigationDone
  then show ?thesis
    using assms by (auto simp: nav_inv_def navigation_done_def split: option.splits)
qed

lemma sys_reachable_nav_inv: "sys_reachable s \<Longrightarrow> nav_inv s"
  by (induction rule: sys_reachable.induct) (auto intro: nav_inv_init nav_inv_step)

lemma sys_reachable_run: "sys_reachable s \<Longrightarrow> sys_reachable (run_sys s es)"
  by (induction es arbitrary: s) (auto intro: sys_reachable.step)

lemmas nav_facts = init_sys_def boot_facts callback_runs_def router_install_def navigation_done_def

text \<open>Startup followed by the initial navigation, event by event.\<close>

lemma boot_navigation_run:
  "rs_current (sys_router (run_sys (init_sys ua base ids loc)
      [PageEvent EvaluateMain, PageEvent LoaderFulfils, PageEvent RunMicrotask])) = None \<and>
   app (sys_page (run_sys (init_sys ua base ids loc)
      [PageEvent EvaluateMain, PageEvent LoaderFulfils, PageEvent RunMicrotask])) \<noteq> None \<and>
   rs_current (sys_router (run_sys (init_sys ua base ids loc)
      [PageEvent EvaluateMain, PageEvent LoaderFulfils, PageEvent RunMicrotask, NavigationDone])) =
     Some (current_route (app_router base) loc)"
  by (simp add: nav_facts)

section \<open>Properties of the initial navigation\<close>

text \<open>
  C32. The initial navigation that \<open>app.use(router)\<close> starts resolves the browser's
  location: once the callback has run, the application exists and the router is still
  at its start location; when the navigation completes, its current route is the route
  that the location resolves to under the router's base.
\<close>

theorem initial_navigation_route:
  "rs_current (sys_router (run_sys (init_sys ua base ids loc)
      [PageEvent EvaluateMain, PageEvent LoaderFulfils, PageEvent RunMicrotask])) = None \<and>
   rs_current (sys_router (run_sys (init_sys ua base ids loc)
      [PageEvent EvaluateMain, PageEvent LoaderFulfils, PageEvent RunMicrotask, NavigationDone])) =
     Some (current_route (app_router base) loc)"
  using boot_navigation_run by blast

text \<open>
  C33. The router resolves a route only after it has been installed on the
  application: in every reachable state where the router has a current route, the
  application exists with the router as its plugin, and the route is what the
  router's table gives for some location.
\<close>

theorem route_only_after_install:
  assumes "sys_reachable s" and "rs_current (sys_router s) = Some r"
  shows "(\<exists>a. app (sys_page s) = Some a \<and> app_plugins a = [app_router (base_url (sys_page s))]) \<and>
         (\<exists>l. r = current_route (app_router (base_url (sys_page s))) l)"
proof -
  have inv: "nav_inv s" by (rule sys_reachable_nav_inv [OF assms(1)])
  then have b: "boot_inv (sys_page s)" by (simp add: nav_inv_def reachable_boot_inv)
  obtain a where a: "app (sys_page s) = Some a"
    using inv assms(2) by (cases "app (sys_page s)") (auto simp: nav_inv_def)
  moreover have "app_plugins a = [app_router (base_url (sys_page s))]"
    using b a by (simp add: boot_inv_def)
  moreover have "\<exists>l. r = current_route (app_router (base_url (sys_page s))) l"
    using inv assms(2) by (simp add: nav_inv_def)
  ultimately show ?thesis by blast
qed

theorem route_only_after_install_witness:
  "app (sys_page (run_sys (init_sys ''x'' ''/'' [''app''] ''/about'')
      [PageEvent EvaluateMain, PageEvent LoaderFulfils, PageEvent RunMicrotask, NavigationDone])) \<noteq> None \<and>
   current_route (app_router ''/'') ''/about'' = Some \<lparr>path = ''/about'', name = ''About'', component = About\<rparr>"
proof -
  let ?s = "run_sys (init_sys ''x'' ''/'' [''app''] ''/about'')
      [PageEvent EvaluateMain, PageEvent LoaderFulfils, PageEvent RunMicrotask, NavigationDone]"
  have r: "sys_reachable ?s" by (rule sys_reachable_run [OF sys_reachable.start])
  have c: "rs_current (sys_router ?s) = Some (current_route (app_router ''/'') ''/about'')"
    using boot_navigation_run by blast
  have about: "current_route (app_router ''/'') ''/about'' = Some \<lparr>path = ''/about'', name = ''About'', component = About\<rparr>"
    by code_simp
  show ?thesis using route_only_after_install [OF r c] about by auto
qed

text \<open>
  C34. The router agrees with the address bar: in every reachable state where the
  router has started and no navigation is in flight, its current route is the route of
  the browser's location, whatever \<open>popstate\<close> events happened, also during the first
  navigation (whose completion rewrites the history entry).
\<close>

theorem route_matches_location:
  assumes "sys_reachable s" and "rs_started (sys_router s)" and "rs_pending (sys_router s) = None"
  shows "rs_current (sys_router s) =
           Some (current_route (app_router (base_url (sys_page s))) (rs_location (sys_router s)))"
  using sys_reachable_nav_inv [OF assms(1)] assms(2,3) by (simp add: nav_inv_def)

text \<open>
  Back to \<open>/books\<close> while the first navigation to \<open>/about\<close> is in flight: the router
  ignores the event, and completing the navigation rewrites the location to
  \<open>/about\<close>.
\<close>

lemma popstate_during_first_navigation:
  "rs_started (sys_router (run_sys (init_sys ''x'' ''/'' [''app''] ''/about'')
      [PageEvent EvaluateMain, PageEvent LoaderFulfils, PageEvent RunMicrotask, PopState ''/books'', NavigationDone])) \<and>
   rs_pending (sys_router (run_sys (init_sys ''x'' ''/'' [''app''] ''/about'')
      [PageEvent EvaluateMain, PageEvent LoaderFulfils, PageEvent RunMicrotask, PopState ''/books'', NavigationDone])) = None \<and>
   rs_location (sys_router (run_sys (init_sys ''x'' ''/'' [''app''] ''/about'')
      [PageEvent EvaluateMain, PageEvent LoaderFulfils, PageEvent RunMicrotask, PopState ''/books'', NavigationDone])) = ''/about''"
  by (simp add: nav_facts history_popstate_def)

theorem route_matches_location_witness:
  "rs_current (sys_router (run_sys (init_sys ''x'' ''/'' [''app''] ''/about'')
      [PageEvent EvaluateMain, PageEvent LoaderFulfils, PageEvent RunMicrotask, PopState ''/books'', NavigationDone])) =
   Some (current_route (app_router ''/'') ''/about'')"
proof -
  let ?s = "run_sys (init_sys ''x'' ''/'' [''app''] ''/about'')
      [PageEvent EvaluateMain, PageEvent LoaderFulfils, PageEvent RunMicrotask, PopState ''/books'', NavigationDone]"
  have r: "sys_reachable ?s" by (rule sys_reachable_run [OF sys_reachable.start])
  have st: "rs_started (sys_router ?s)" and p: "rs_pending (sys_router ?s) = None"
    and l: "rs_location (sys_router ?s) = ''/about''"
    using popstate_during_first_navigation by blast+
  have b: "base_url (sys_page ?s) = ''/''" by (simp add: nav_facts history_popstate_def)
  show ?thesis using route_matches_location [OF r st p] l b by simp
qed

end
