(* ===== verification/Spec2Isabelle.thy ===== *)
theory Spec2Isabelle
  imports Boot_Spec Regex_Loop Router_Install
begin

text \<open>
  \<^bold>\<open>Verification of the mypoems single-page application.\<close>

  \<^bold>\<open>The program.\<close> Three JavaScript files under \<open>src/\<close>:
  \<^item> \<open>src/main.js\<close>, the entry point: it classifies the client from
    \<open>navigator.userAgent\<close> with the regular expression
    \<open>/Android|iPhone|iPad|iPod|Windows Phone|webOS|BlackBerry/i\<close> (lines 5 to 7),
    starts a dynamic import of the mobile or the desktop root view (lines 10 to 12), and
    when that promise fulfils creates the Vue application, installs the router and mounts
    it on \<open>#app\<close> (lines 14 to 19);
  \<^item> \<open>src/desktop/router/index.js\<close>, the routing table of three static routes
    (\<open>/\<close>, \<open>/about\<close>, \<open>/books\<close>) and the router created over it with HTML5
    history;
  \<^item> \<open>src/desktop/components/js/main.js\<close>, a second, synchronous entry point that
    mounts the desktop view directly.
  The classifier feeds the bootstrap's choice of root view; the router is shared by the
  mounted application; the regular-expression semantics of ECMAScript is the common
  ground of the classifier and of vue-router's path matching.

  \<^bold>\<open>The library.\<close>
  \<^item> \<open>Prelude\<close>: the string type of the model (\<open>js_string\<close>, code units as
    \<open>char\<close>, i.e. the Latin-1 range), rule collections, and facts on substrings
    (\<open>occurs_at\<close> against HOL-Library's \<open>sublist\<close>).
  \<^item> \<open>JS_Regex\<close>: the fragment of ECMAScript regular expressions the program uses.
    \<open>pattern\<close> is the abstract syntax, \<open>parse_disjunction\<close> the pattern grammar
    (\<open>None\<close> for an early SyntaxError or a construct outside the fragment),
    \<open>canonicalize\<close> the \<open>i\<close> flag's case folding over Latin-1, \<open>matcher\<close>
    the backtracking matcher with success continuations (ECMA-262 CompileSubpattern),
    \<open>exec_from\<close> the search loop of RegExpBuiltinExec (a \<open>function\<close> with a
    measure: it stops after at most \<open>length s + 1\<close> start indices), and
    \<open>regexp_test\<close> \<open>RegExp.prototype.test\<close>. \<open>lang_at\<close> is a declarative
    reference semantics; the matcher is proved sound and complete for it
    (\<open>matcher_correct\<close>) and the loop to return the leftmost match and to miss none
    (\<open>regexp_exec_leftmost\<close>, \<open>regexp_exec_finds_match\<close>). Patterns that are
    alternations of plain strings are parsed back from their text
    (\<open>parse_join_alts\<close>) and match exactly where one of the strings occurs up to
    canonicalization (\<open>regexp_test_literals\<close>).
  \<^item> \<open>Regex_Loop\<close>: RegExpBuiltinExec as ECMA-262 writes it, a loop over
    \<open>lastIndex\<close> (\<open>exec_body\<close> one iteration, \<open>exec_loop\<close> the \<open>while_option\<close>,
    \<open>builtin_exec\<close> the result). The loop is proved to stop from every start index
    (\<open>measure_while_option_Some\<close>, measure: the indices left to try), to reach its
    result within \<open>length s + 2\<close> iterations, and to compute \<open>regexp_exec\<close>
    exactly.
  \<^item> \<open>Device_Classifier\<close>: \<open>is_mobile\<close> is main.js lines 5 to 7, the literal run
    by the engine. \<open>classify\<close> is the specification's contract (section 4.1:
    case-insensitive containment of one of seven tokens), stated without regular
    expressions; \<open>classifier_refines_contract\<close> proves the code refines it, and the
    specification's testable properties follow: tokens anywhere and in any case make a
    user agent mobile, their absence makes it desktop, case insensitivity and
    substring monotonicity. An absent user agent (\<open>undefined\<close>, \<open>null\<close>) is
    converted to a string and classified desktop (\<open>is_mobile_of_cases\<close>).
  \<^item> \<open>Path_Tokenizer\<close>: vue-router's \<open>tokenizePath\<close>, the first step of what the
    router does with each path of its table: the states \<open>Static\<close> and
    \<open>EscapeNext\<close> with \<open>previousState\<close>, \<open>consumeBuffer\<close> (which throws
    outside the static state) and \<open>finalizeSegment\<close>; a \<open>:\<close> (a parameter, none in
    the table) is outside the model. The lemmas prove that a path without parameters
    or escapes is rejected exactly when it does not start with \<open>/\<close>, that printing
    the tokens back with escapes (\<open>tokens_path\<close>) tokenizes to the same tokens and
    gives the path itself when it has no backslash, and that every segment is empty or
    one non-empty static token without backslash (\<open>static_segment\<close>).

  \<^item> \<open>Router\<close>: \<open>src/desktop/router/index.js\<close>. \<open>routes\<close> is the
    table (records of path, name and component), \<open>app_router\<close> the router that
    \<open>createRouter\<close> builds over \<open>createWebHistory(BASE_URL)\<close>. What vue-router does
    with a static path is modelled from its algorithm: \<open>tokenize_path\<close>,
    \<open>tokens_to_pattern\<close> and \<open>compile_path\<close> (the pattern \<open>^/about/?$\<close> with the
    \<open>i\<close> flag, run by the \<open>JS_Regex\<close> engine), \<open>resolve_path\<close> (the first
    record whose pattern matches), \<open>normalize_base\<close> and \<open>strip_base\<close> for the
    history's base, \<open>current_route\<close> the route of a location. The lemmas prove
    that a path matched by a route resolves to it and to no other, that each route
    matches exactly its own path up to case and a trailing slash, that resolution does
    not depend on the table's order, and that a location under the base resolves as
    its path relative to the base.
  \<^item> \<open>Vue_Runtime\<close>: \<open>createApp\<close>, \<open>app.use\<close> (an installed plugin is skipped)
    and \<open>app.mount\<close> (\<open>querySelector\<close> on the selector; with no element Vue
    only warns; an already mounted application only warns, after its container was
    cleared).
  \<^item> \<open>Bootstrap\<close>: \<open>src/main.js\<close> as a state machine. \<open>page\<close> holds the user
    agent, the document, the dynamic import's request and promise, whether its reaction
    job is queued, the application and the unhandled rejections; \<open>event\<close> lists the
    environment's steps: module evaluation (\<open>eval_main\<close>: classification and the
    \<open>import()\<close> of lines 10 to 12), the loader fulfilling or rejecting the promise, and
    the microtask that runs the \<open>then\<close> callback (\<open>then_callback\<close>, lines 14 to 19).
    \<open>page_step\<close> is one step, \<open>run\<close> a sequence, \<open>reachable\<close> the inductive
    closure from \<open>init_page\<close>. The invariant \<open>boot_inv\<close> (proved by rule
    induction) gives: no mount before the import fulfils, the mounted view is the one
    the classifier selects and carries the router, the application is created at most
    once, a rejected import never mounts and leaves one unhandled rejection, a page
    without \<open>#app\<close> ends with nothing mounted.
  \<^item> \<open>Module_Resolution\<close>: the static imports of the three modules, resolved as the
    bundler does (\<open>@/\<close> for \<open>src/\<close>, \<open>./\<close> and \<open>../\<close> relative to the
    importer's directory, \<open>normalize_path\<close>), and linking (\<open>link_module\<close>). The
    files of the repository are a parameter whose JavaScript files are the three of the
    sources. \<open>src/main.js\<close> links; \<open>src/desktop/components/js/main.js\<close> never does,
    because its \<open>./desktop/router/index.js\<close> names
    \<open>src/desktop/components/js/desktop/router/index.js\<close>, which does not exist
    (\<open>secondary_entry_never_runs\<close>); \<open>desktop_entry\<close> is its line 5, what it would
    do if linked. The router module links exactly when its three page components exist
    (\<open>router_module_links_iff\<close>); the imports of each module are one definition each
    (\<open>main_imports\<close>, \<open>router_imports\<close>, \<open>secondary_imports\<close>). \<open>eval_module\<close> evaluates a linked graph as
    ECMA-262 does (each module once, its imports in order before its body), with fuel
    for the depth of the graph and the errors \<open>Unresolved\<close> and \<open>Exhausted\<close>;
    \<open>main_evaluation_order\<close> shows the router module runs before \<open>src/main.js\<close>, with
    any fuel from 3.
  \<^item> \<open>Boot_Spec\<close>: the specification's own state machine for startup (section 4.2:
    \<open>Unloaded\<close>, \<open>Mounted\<close>, terminal \<open>Failed\<close>) as \<open>spec_step\<close>, the abstraction
    \<open>phase\<close> of a page, and the refinement \<open>boot_refines_spec\<close>: every event of a
    reachable page is a step of the specification or a stutter. It also composes the
    bootstrap with module resolution: the dynamic import's specifier
    (\<open>view_specifier\<close>) is resolved against the repository's files and the loader
    answers accordingly (\<open>loader_event\<close>); \<open>boot_with_files_outcome\<close> says startup
    mounts exactly when the selected root view's file exists and otherwise fails with
    one unhandled rejection.
  \<^item> \<open>Router_Install\<close>: what \<open>app.use(router)\<close> does to the router object and how
    the router follows the HTML5 history. vue-router's \<open>install\<close>
    (\<open>router_install\<close>) starts the initial navigation to the browser's location once;
    \<open>popstate\<close> events (\<open>history_popstate\<close>, the listener of
    \<open>createWebHistory\<close>) are recorded always and navigated to once the router is
    ready; the completion of a navigation (\<open>navigation_done\<close>) sets the current route,
    the first one also rewriting the history entry. \<open>sys_step\<close> composes the page's
    step with the router's state (the install runs in the microtask that runs the
    callback); \<open>nav_inv\<close> is its invariant. The lemmas prove that the initial
    navigation resolves the location's route after the application exists, that a
    route is only ever set after the router was installed, and that an idle router's
    current route is the route of the address bar.
  The theory below states startup end to end across the classifier's contract, the
  bootstrap, the router's install and the history base, for all inputs.

  \<^bold>\<open>Modelling choices.\<close> Code units above U+00FF are not modelled; case folding is
  exact on U+0000 to U+00FF, including the two letters whose upper case leaves Latin-1.
  Only the flags \<open>''''\<close> and \<open>''i''\<close> are modelled. Every loop of the model is a
  terminating \<open>function\<close>, structural recursion or a \<open>while_option\<close> proved to
  stop, except module evaluation: \<open>eval_module\<close> takes fuel, one unit per level of
  the import graph, and returns \<open>Exhausted\<close> without it; the graph of
  \<open>src/main.js\<close> has depth 2 below the entry, so fuel 3 suffices, and more fuel
  never changes a result (\<open>eval_module_mono\<close>). The router is modelled for paths
  without parameters, which are all the table has. Promise jobs are
  explicit events, so every interleaving of the loader and the microtask queue is a
  sequence of steps.

  \<^bold>\<open>Not modelled.\<close> The page components and root views (\<open>.vue\<close> files) are not
  in the sources: they are opaque names (\<open>view_module\<close>), taken to have no imports of
  the repository, and what they render, and any navigation their \<open>RouterLink\<close>s start,
  cannot be stated. Vue's rendering and vue-router's navigation guards are library
  code the sources never configure. The build configuration file is not in the
  sources; what the code relies on from it is modelled as the \<open>@/\<close> rule of
  \<open>resolve_specifier\<close> and the parameter \<open>BASE_URL\<close>. User agents are modelled as
  strings of code units up to U+00FF. In \<open>current_route\<close>, vue-router's
  \<open>resolveRelativePath\<close> is not modelled: a pathname that starts with the base but
  not at a segment boundary (\<open>/mypoemsabout\<close> under \<open>/mypoems\<close>) leaves a rest
  without a leading \<open>/\<close>, which vue-router resolves relative to the current route
  and the model matches against no route; a base holding \<open>#\<close> (hash history) is
  not modelled either. \<open>normalize_path\<close> drops a \<open>..\<close> above the root, where a
  bundler reports an error; the sources have no such specifier.
\<close>

section \<open>Properties across components\<close>

text \<open>
  C19. Startup end to end, for every user agent, build-time base and location: with a
  host element \<open>#app\<close>, after the module runs, the loader fulfils the import, the
  microtask runs the callback and the initial navigation completes, the page shows the
  mobile root view exactly when the user agent contains one of the specification's
  tokens ignoring case (the contract of section 4.1, not the code's regular expression),
  with the shared router; and when the browser's pathname is the normalized base
  followed by a path, the current route is the route that path resolves to.
\<close>

theorem boot_end_to_end:
  assumes "''app'' \<in> set ids" and "p \<noteq> []"
  shows "rendered (page_dom (sys_page (run_sys (init_sys ua base ids (normalize_base base @ p))
           [PageEvent EvaluateMain, PageEvent LoaderFulfils, PageEvent RunMicrotask, NavigationDone]))) ''app'' =
           Some (if classify ua = Mobile then MobileApp else DesktopApp, [app_router base]) \<and>
         rs_current (sys_router (run_sys (init_sys ua base ids (normalize_base base @ p))
           [PageEvent EvaluateMain, PageEvent LoaderFulfils, PageEvent RunMicrotask, NavigationDone])) =
           Some (resolve_path routes p)"
proof -
  have v: "root_view_for (is_mobile ua) = (if classify ua = Mobile then MobileApp else DesktopApp)"
    by (simp add: root_view_for_def classify_def is_mobile_iff_tokens)
  have r: "current_route (app_router base) (normalize_base base @ p) = resolve_path routes p"
    using assms(2) by (simp add: current_route_def app_router_def create_router_def strip_normalized_base)
  show ?thesis using assms(1) v r by (simp add: nav_facts)
qed

theorem boot_end_to_end_witness:
  "''app'' \<in> set [''app''] \<and> ''/books'' \<noteq> [] \<and>
   rendered (page_dom (sys_page (run_sys (init_sys ''Mozilla/5.0 (iPhone; CPU iPhone OS 17_0)'' ''/mypoems/'' [''app''] (normalize_base ''/mypoems/'' @ ''/books''))
     [PageEvent EvaluateMain, PageEvent LoaderFulfils, PageEvent RunMicrotask, NavigationDone]))) ''app'' =
     Some (MobileApp, [app_router ''/mypoems/'']) \<and>
   rs_current (sys_router (run_sys (init_sys ''Mozilla/5.0 (iPhone; CPU iPhone OS 17_0)'' ''/mypoems/'' [''app''] (normalize_base ''/mypoems/'' @ ''/books''))
     [PageEvent EvaluateMain, PageEvent LoaderFulfils, PageEvent RunMicrotask, NavigationDone])) =
     Some (Some \<lparr>path = ''/books'', name = ''Books'', component = Books\<rparr>)"
proof -
  have h: "''app'' \<in> set [''app'']" "''/books'' \<noteq> []" by simp_all
  have c: "classify ''Mozilla/5.0 (iPhone; CPU iPhone OS 17_0)'' = Mobile"
    by (simp add: classify_def contains_ci_def mobile_tokens_def) code_simp
  have b: "resolve_path routes ''/books'' = Some \<lparr>path = ''/books'', name = ''Books'', component = Books\<rparr>"
    by code_simp
  show ?thesis using boot_end_to_end [OF h, of "''Mozilla/5.0 (iPhone; CPU iPhone OS 17_0)''" "''/mypoems/''"] h c b
    by simp
qed

end
